theory Spec2Isabelle
  imports Complex_Main "HOL-Library.Sublist"
begin

section \<open>Strings and numbers as the source prints them\<close>

text \<open>
  Strings are byte lists. \<^verbatim>\<open>s.includes(t)\<close> is the test for a contiguous
  occurrence of \<open>t\<close> in \<open>s\<close>; the empty string occurs in every string.
\<close>

definition str_includes :: "string \<Rightarrow> string \<Rightarrow> bool" where
  "str_includes s searchString = sublist searchString s"

text \<open>
  \<^verbatim>\<open>x?.includes(t)\<close> on a value that may be \<^verbatim>\<open>undefined\<close>: the optional chain
  yields \<^verbatim>\<open>undefined\<close>, which every caller here uses as a condition, so it
  counts as false.
\<close>

definition opt_includes :: "string option \<Rightarrow> string \<Rightarrow> bool" where
  "opt_includes s searchString =
     (case s of None \<Rightarrow> False | Some t \<Rightarrow> str_includes t searchString)"

text \<open>
  \<^verbatim>\<open>toLowerCase\<close> on the ASCII range: the letters A to Z move to a to z, every
  other byte stays. (The source's strings are UTF-16 and lower-casing knows
  all of Unicode; names outside ASCII are outside this model.)
\<close>

definition toLowerChar :: "char \<Rightarrow> char" where
  "toLowerChar c =
     (let n = (of_char c :: nat)
      in if 65 \<le> n \<and> n \<le> 90 then char_of (n + 32) else c)"

definition toLowerCase :: "string \<Rightarrow> string" where
  "toLowerCase s = map toLowerChar s"

text \<open>
  A number inside a template literal. Integers print in decimal, negative ones
  with a leading minus sign (the source's numbers print so below \<open>10^21\<close>).
\<close>

definition decimal_digits :: string where
  "decimal_digits = ''0123456789''"

function show_digits :: "int \<Rightarrow> string" where
  "show_digits i = (if i < 10 then [decimal_digits ! nat i]
                    else show_digits (i div 10) @ [decimal_digits ! nat (i mod 10)])"
  by pat_completeness auto
termination
proof (relation "measure nat")
  show "wf (measure nat)" by simp
next
  fix i :: int
  assume "\<not> i < 10"
  then have "i div 10 < i" by (intro int_div_less_self) simp_all
  with \<open>\<not> i < 10\<close> show "(i div 10, i) \<in> measure nat" by simp
qed

declare show_digits.simps [simp del]

definition show_int :: "int \<Rightarrow> string" where
  "show_int i = (if i < 0 then CHR ''-'' # show_digits (- i) else show_digits i)"

text \<open>A string that may be \<^verbatim>\<open>undefined\<close>, inside a template literal.\<close>

definition template_text :: "string option \<Rightarrow> string" where
  "template_text s = (case s of None \<Rightarrow> ''undefined'' | Some t \<Rightarrow> t)"

lemma length_decimal_digits: "length decimal_digits = 10"
  by (simp add: decimal_digits_def)

lemma set_show_digits: "set (show_digits i) \<subseteq> set decimal_digits"
proof (induction i rule: show_digits.induct)
  case (1 i)
  show ?case
  proof (cases "i < 10")
    case True
    then have "nat i < length decimal_digits"
      by (simp add: length_decimal_digits)
    then have "decimal_digits ! nat i \<in> set decimal_digits" by (rule nth_mem)
    moreover have "show_digits i = [decimal_digits ! nat i]"
      using True by (subst show_digits.simps) (simp only: if_True)
    ultimately show ?thesis by (simp only: list.set) blast
  next
    case False
    have "nat (i mod 10) < length decimal_digits"
      by (simp add: length_decimal_digits)
    then have "decimal_digits ! nat (i mod 10) \<in> set decimal_digits" by (rule nth_mem)
    moreover have "show_digits i = show_digits (i div 10) @ [decimal_digits ! nat (i mod 10)]"
      using False by (subst show_digits.simps) (simp only: if_False)
    moreover have "set (show_digits (i div 10)) \<subseteq> set decimal_digits"
      using False by (rule "1.IH")
    ultimately show ?thesis by (simp only: set_append list.set) blast
  qed
qed

lemma set_show_int: "set (show_int i) \<subseteq> insert CHR ''-'' (set decimal_digits)"
proof (cases "i < 0")
  case True
  then have "show_int i = CHR ''-'' # show_digits (- i)" by (simp only: show_int_def if_True)
  then show ?thesis using set_show_digits [of "- i"] by (simp only: list.set) blast
next
  case False
  then have "show_int i = show_digits i" by (simp only: show_int_def if_False)
  then show ?thesis using set_show_digits [of i] by (simp only:) blast
qed

section \<open>Batch partitioning (BatchProcessor.createBatches)\<close>

text \<open>
  \<^verbatim>\<open>items.slice(start, end)\<close> for non-negative integer bounds: the elements
  at the indices \<open>start \<le> k < min end (length items)\<close>, and nothing when
  \<open>end \<le> start\<close>.
\<close>

definition slice :: "'a list \<Rightarrow> nat \<Rightarrow> nat \<Rightarrow> 'a list" where
  "slice xs i j = take (j - i) (drop i xs)"

text \<open>
  The \<^verbatim>\<open>for (let i = 0; i < items.length; i += size)\<close> loop of
  \<^verbatim>\<open>createBatches\<close>. Nothing in the loop itself makes \<open>i\<close> grow, so it is a
  partial function: not returning is the value \<open>None\<close>. Batch sizes are
  non-negative integers here (the source's \<^verbatim>\<open>number\<close> restricted to the
  values a batch size is given).
\<close>

partial_function (option) createBatches_loop ::
  "'a list \<Rightarrow> nat \<Rightarrow> nat \<Rightarrow> 'a list list \<Rightarrow> 'a list list option" where
  "createBatches_loop items bsize i batches =
     (if i < length items
      then createBatches_loop items bsize (i + bsize) (batches @ [slice items i (i + bsize)])
      else Some batches)"

declare createBatches_loop.simps [code]

definition createBatches :: "'a list \<Rightarrow> nat \<Rightarrow> 'a list list option" where
  "createBatches items bsize =
     (if bsize = 0 \<or> bsize \<ge> length items then Some [items]
      else createBatches_loop items bsize 0 [])"

subsection \<open>Arithmetic of the batch count\<close>

lemma batch_count_step:
  assumes "0 < b" "0 < (n::nat)"
  shows "(n + b - 1) div b = Suc ((n - b + b - 1) div b)"
proof (cases "b \<le> n")
  case True
  have "n + b - 1 = (n - 1) + b" using assms by arith
  then have "(n + b - 1) div b = (n - 1 + b) div b" by (rule arg_cong)
  also have "\<dots> = Suc ((n - 1) div b)" using assms(1) by (simp only: div_add_self2)
  also have "n - 1 = n - b + b - 1" using True by arith
  finally show ?thesis .
next
  case False
  have "b \<le> n + b - 1" "n + b - 1 < 2 * b" using False assms by arith+
  then have "(n + b - 1) div b = 1" by (intro div_nat_eqI) simp_all
  moreover have "n - b + b - 1 < b" using False assms by arith
  then have "(n - b + b - 1) div b = 0" by (rule div_less)
  ultimately show ?thesis by (simp only: One_nat_def)
qed

lemma ceiling_as_div:
  assumes b: "0 < (b::nat)"
  shows "nat \<lceil>real n / real b\<rceil> = (n + b - 1) div b"
proof -
  define q where "q = (n + b - 1) div b"
  define r where "r = (n + b - 1) mod b"
  have e: "n + b - 1 = q * b + r"
    unfolding q_def r_def by (rule div_mult_mod_eq [symmetric])
  have rb: "r < b" unfolding r_def using b by (rule mod_less_divisor)
  have up: "real n \<le> real q * real b"
  proof -
    have "n \<le> q * b" using e rb by arith
    then show ?thesis by (metis of_nat_le_iff of_nat_mult)
  qed
  have lo: "(real q - 1) * real b < real n"
  proof -
    have "q * b < n + b" using e rb b by arith
    then have "real q * real b < real n + real b"
      by (metis of_nat_less_iff of_nat_mult of_nat_add)
    then show ?thesis by (simp add: algebra_simps)
  qed
  have "\<lceil>real n / real b\<rceil> = int q"
  proof (rule ceiling_unique)
    show "real_of_int (int q) - 1 < real n / real b"
      using lo b by (simp add: pos_less_divide_eq)
    show "real n / real b \<le> real_of_int (int q)"
      using up b by (simp add: pos_divide_le_eq)
  qed
  then show ?thesis by (simp add: q_def)
qed

subsection \<open>The loop returns, and what it returns\<close>

lemma createBatches_loop_returns:
  assumes b: "0 < b"
  shows "\<exists>bs. createBatches_loop items b i acc = Some (acc @ bs)
            \<and> concat bs = drop i items
            \<and> length bs = (length items - i + b - 1) div b"
  using b
proof (induction "length items - i" arbitrary: i acc rule: less_induct)
  case less
  show ?case
  proof (cases "i < length items")
    case False
    then show ?thesis
      using less.prems by (subst createBatches_loop.simps) simp
  next
    case True
    let ?s = "slice items i (i + b)"
    have "length items - (i + b) < length items - i"
      using True less.prems by arith
    from less.hyps [OF this less.prems, of "acc @ [?s]"]
    obtain bs where bs:
      "createBatches_loop items b (i + b) (acc @ [?s]) = Some ((acc @ [?s]) @ bs)"
      "concat bs = drop (i + b) items"
      "length bs = (length items - (i + b) + b - 1) div b"
      by blast
    have 1: "createBatches_loop items b i acc = Some (acc @ ?s # bs)"
      using True bs(1) by (subst createBatches_loop.simps) simp
    have 2: "concat (?s # bs) = drop i items"
      using bs(2) by (simp add: slice_def add.commute [of i b] flip: drop_drop)
    have "0 < length items - i" using True by arith
    from batch_count_step [OF less.prems this]
    have "(length items - i + b - 1) div b = Suc ((length items - i - b + b - 1) div b)" .
    then have 3: "length (?s # bs) = (length items - i + b - 1) div b"
      using bs(3) by (simp only: length_Cons diff_diff_left)
    show ?thesis using 1 2 3 by blast
  qed
qed

text \<open>
  C6. For a batch size \<open>b\<close> with \<open>0 < b < N\<close>, \<open>createBatches\<close> returns, the number
  of batches is \<open>ceil(N/b)\<close>, and the batches concatenated in order are the
  original list; for \<open>b = 0\<close> it returns exactly one batch, the whole list.
\<close>

theorem createBatches_partition:
  "(0 < b \<and> b < length items \<longrightarrow>
      (\<exists>bs. createBatches items b = Some bs
          \<and> length bs = nat \<lceil>real (length items) / real b\<rceil>
          \<and> concat bs = items))
   \<and> createBatches items 0 = Some [items]"
proof (intro conjI impI)
  assume h: "0 < b \<and> b < length items"
  then have b: "0 < b" by simp
  from createBatches_loop_returns [OF b, of items 0 "[]"]
  obtain bs where bs: "createBatches_loop items b 0 [] = Some bs"
    "concat bs = items" "length bs = (length items + b - 1) div b"
    by auto
  have "createBatches items b = Some bs"
    using h bs(1) by (simp add: createBatches_def)
  moreover have "length bs = nat \<lceil>real (length items) / real b\<rceil>"
    using bs(3) ceiling_as_div [OF b, of "length items"] by simp
  ultimately show "\<exists>bs. createBatches items b = Some bs
          \<and> length bs = nat \<lceil>real (length items) / real b\<rceil>
          \<and> concat bs = items"
    using bs(2) by blast
next
  show "createBatches items 0 = Some [items]"
    by (simp add: createBatches_def)
qed

theorem createBatches_partition_witness:
  "(0 < (2::nat) \<and> 2 < length [10, 20, 30, 40, 50 :: nat])
   \<and> createBatches [10, 20, 30, 40, 50 :: nat] 2 = Some [[10, 20], [30, 40], [50]]
   \<and> length [[10, 20], [30, 40], [50 :: nat]] = nat \<lceil>real (length [10, 20, 30, 40, 50 :: nat]) / real (2::nat)\<rceil>
   \<and> createBatches [10, 20, 30, 40, 50 :: nat] 0 = Some [[10, 20, 30, 40, 50]]"
proof -
  have h: "0 < (2::nat) \<and> 2 < length [10, 20, 30, 40, 50 :: nat]" by simp
  have e: "createBatches [10, 20, 30, 40, 50 :: nat] 2 = Some [[10, 20], [30, 40], [50]]"
    by code_simp
  from createBatches_partition [of 2 "[10, 20, 30, 40, 50 :: nat]"] h e
  show ?thesis by simp
qed

section \<open>Rate limiter (RateLimiter)\<close>

text \<open>
  Times are the integer milliseconds of \<^verbatim>\<open>Date.now()\<close>; the clock is an
  argument of every operation that reads it.
\<close>

record RateLimiterConfig =
  maxRequests :: int
  windowMs :: int
  minInterval :: "int option"

record RateLimiter =
  requests :: "int list"
  config :: RateLimiterConfig
  lastRequestTime :: int

definition newRateLimiter :: "RateLimiterConfig \<Rightarrow> RateLimiter" where
  "newRateLimiter cfg = \<lparr>requests = [], config = cfg, lastRequestTime = 0\<rparr>"

text \<open>\<^verbatim>\<open>checkLimit\<close> drops the timestamps outside the window, then compares.\<close>

definition checkLimit :: "int \<Rightarrow> RateLimiter \<Rightarrow> bool \<times> RateLimiter" where
  "checkLimit now rl =
     (let rl' = rl\<lparr>requests := filter (\<lambda>time. now - time < windowMs (config rl)) (requests rl)\<rparr>
      in (int (length (requests rl')) < maxRequests (config rl'), rl'))"

text \<open>\<^verbatim>\<open>recordRequest\<close> reads the clock twice, once for each assignment.\<close>

definition recordRequest :: "int \<Rightarrow> int \<Rightarrow> RateLimiter \<Rightarrow> RateLimiter" where
  "recordRequest now now' rl = rl\<lparr>requests := requests rl @ [now], lastRequestTime := now'\<rparr>"

text \<open>A run of \<^verbatim>\<open>recordRequest\<close> calls, one per timestamp.\<close>

fun recordRequests :: "int list \<Rightarrow> RateLimiter \<Rightarrow> RateLimiter" where
  "recordRequests [] rl = rl"
| "recordRequests (t # ts) rl = recordRequests ts (recordRequest t t rl)"

lemma recordRequests_requests: "requests (recordRequests ts rl) = requests rl @ ts"
  by (induction ts arbitrary: rl) (simp_all add: recordRequest_def)

lemma recordRequests_config: "config (recordRequests ts rl) = config rl"
  by (induction ts arbitrary: rl) (simp_all add: recordRequest_def)

lemma checkLimit_config: "config (snd (checkLimit now rl)) = config rl"
  by (simp add: checkLimit_def Let_def)

text \<open>
  C8, as stated, at a limiter whose \<open>maxRequests\<close> is 0: exactly \<open>maxRequests\<close>
  requests (none) have been recorded, the probe returns false, and it still
  returns false when the clock has moved a whole window further.
\<close>

theorem checkLimit_no_capacity_counterexample:
  "int (length ([] :: int list)) = maxRequests \<lparr>maxRequests = 0, windowMs = 60000, minInterval = None\<rparr>
   \<and> \<not> fst (checkLimit 1000
         (recordRequests [] (newRateLimiter \<lparr>maxRequests = 0, windowMs = 60000, minInterval = None\<rparr>)))
   \<and> \<not> fst (checkLimit 100000
         (snd (checkLimit 1000
           (recordRequests [] (newRateLimiter \<lparr>maxRequests = 0, windowMs = 60000, minInterval = None\<rparr>)))))"
  by (simp add: checkLimit_def newRateLimiter_def)

text \<open>
  C8, amended: for every limiter whose \<open>maxRequests\<close> is at least 1, in any
  state: after exactly \<open>maxRequests\<close> requests are recorded whose timestamps
  all lie within the window at time \<open>now\<close>, \<open>checkLimit\<close> at \<open>now\<close> returns false;
  and at a later time \<open>now'\<close> at which every timestamp the limiter still holds
  lies outside the window, \<open>checkLimit\<close> returns true.
\<close>

theorem checkLimit_window:
  assumes "1 \<le> maxRequests (config rl)"
    and "int (length ts) = maxRequests (config rl)"
    and "\<forall>t \<in> set ts. now - t < windowMs (config rl)"
    and "rl1 = recordRequests ts rl"
    and "rl2 = snd (checkLimit now rl1)"
    and "\<forall>t \<in> set (requests rl2). \<not> now' - t < windowMs (config rl)"
  shows "\<not> fst (checkLimit now rl1) \<and> fst (checkLimit now' rl2)"
proof
  have "filter (\<lambda>time. now - time < windowMs (config rl)) ts = ts"
    using assms(3) by (simp add: filter_id_conv)
  then have "length ts \<le> length (filter (\<lambda>time. now - time < windowMs (config rl)) (requests rl1))"
    by (simp add: assms(4) recordRequests_requests)
  then show "\<not> fst (checkLimit now rl1)"
    using assms(2) by (simp add: checkLimit_def Let_def assms(4) recordRequests_config)
next
  have c: "config rl2 = config rl"
    by (simp add: assms(5) assms(4) checkLimit_config recordRequests_config)
  have "filter (\<lambda>time. now' - time < windowMs (config rl)) (requests rl2) = []"
    using assms(6) by (simp add: filter_empty_conv)
  then show "fst (checkLimit now' rl2)"
    using assms(1) c by (simp add: checkLimit_def Let_def)
qed

theorem checkLimit_window_witness:
  "\<not> fst (checkLimit 1500
         (recordRequests [1000, 1100]
            (newRateLimiter \<lparr>maxRequests = 2, windowMs = 1000, minInterval = None\<rparr>)))
   \<and> fst (checkLimit 2100
         (snd (checkLimit 1500
            (recordRequests [1000, 1100]
               (newRateLimiter \<lparr>maxRequests = 2, windowMs = 1000, minInterval = None\<rparr>)))))"
proof -
  let ?rl = "newRateLimiter \<lparr>maxRequests = 2, windowMs = 1000, minInterval = None\<rparr>"
  let ?rl1 = "recordRequests [1000, 1100] ?rl"
  let ?rl2 = "snd (checkLimit 1500 ?rl1)"
  have c: "config ?rl = \<lparr>maxRequests = 2, windowMs = 1000, minInterval = None\<rparr>"
    by (simp add: newRateLimiter_def)
  have r2: "requests ?rl2 = [1000, 1100]"
    by (simp add: checkLimit_def newRateLimiter_def recordRequest_def)
  have h1: "1 \<le> maxRequests (config ?rl)" by (simp add: c)
  have h2: "int (length [1000, 1100 :: int]) = maxRequests (config ?rl)" by (simp add: c)
  have h3: "\<forall>t \<in> set [1000, 1100 :: int]. 1500 - t < windowMs (config ?rl)" by (simp add: c)
  have h6: "\<forall>t \<in> set (requests ?rl2). \<not> 2100 - t < windowMs (config ?rl)"
    unfolding r2 by (simp add: c)
  from checkLimit_window [OF h1 h2 h3 refl refl h6] show ?thesis .
qed

section \<open>Retry with exponential backoff (ExponentialBackoff)\<close>

text \<open>
  What the code reads of a thrown value: its \<^verbatim>\<open>message\<close> and its \<^verbatim>\<open>code\<close>,
  either of which may be missing.
\<close>

record js_error =
  message :: "string option"
  code :: "string option"

text \<open>
  The operation \<^verbatim>\<open>fn\<close> is an effectful closure: what it does may differ from
  one call to the next. It is given as the outcome of its \<open>k\<close>-th call,
  counting from 0.
\<close>

datatype 'a settled = Fulfilled 'a | Rejected js_error

record ExponentialBackoff =
  attempt :: int
  maxAttempts :: int
  baseDelay :: int
  maxDelay :: int

definition newExponentialBackoff :: "int \<Rightarrow> int \<Rightarrow> int \<Rightarrow> ExponentialBackoff" where
  "newExponentialBackoff maxAttempts' baseDelay' maxDelay' =
     \<lparr>attempt = 0, maxAttempts = maxAttempts', baseDelay = baseDelay', maxDelay = maxDelay'\<rparr>"

text \<open>
  A finished run of \<^verbatim>\<open>execute\<close>: what it returns or throws, the object's state
  at that moment, the delays it slept in order, and the number of calls of
  \<^verbatim>\<open>fn\<close> it made.
\<close>

record 'a execution =
  outcome :: "js_error + 'a"
  backoff :: ExponentialBackoff
  sleeps :: "int list"
  calls :: nat

definition isRetryable :: "string list \<Rightarrow> js_error \<Rightarrow> bool" where
  "isRetryable retryableErrors error =
     list_ex (\<lambda>errMsg. opt_includes (message error) errMsg \<or> opt_includes (code error) errMsg)
       retryableErrors"

text \<open>
  The guard \<^verbatim>\<open>retryableErrors && retryableErrors.length > 0\<close> followed by
  \<^verbatim>\<open>if (!isRetryable) throw error\<close>.
\<close>

definition propagates :: "string list option \<Rightarrow> js_error \<Rightarrow> bool" where
  "propagates retryableErrors error =
     (case retryableErrors of
        None \<Rightarrow> False
      | Some errs \<Rightarrow> 0 < length errs \<and> \<not> isRetryable errs error)"

text \<open>
  \<^verbatim>\<open>Math.min(baseDelay * Math.pow(2, attempt - 1), maxDelay)\<close>, read after the
  attempt counter has been incremented (so \<open>attempt \<ge> 1\<close>); delays are integers.
\<close>

definition retryDelay :: "ExponentialBackoff \<Rightarrow> int" where
  "retryDelay bo = min (baseDelay bo * 2 ^ nat (attempt bo - 1)) (maxDelay bo)"

definition exceeded :: "ExponentialBackoff \<Rightarrow> js_error \<Rightarrow> js_error" where
  "exceeded bo error =
     \<lparr>message = Some (''Max retry attempts ('' @ show_int (maxAttempts bo) @ '') exceeded: ''
                         @ template_text (message error)),
      code = None\<rparr>"

subsection \<open>A run of \<open>execute\<close>, from one \<^verbatim>\<open>await\<close> to the next\<close>

text \<open>
  \<^verbatim>\<open>attempt\<close> is a field of the object, and \<^verbatim>\<open>execute\<close> is \<^verbatim>\<open>async\<close>: it gives up
  control at \<^verbatim>\<open>await fn()\<close> and at \<^verbatim>\<open>await this.sleep(delay)\<close>, and whatever runs
  in between on the same object (the API clients keep one \<^verbatim>\<open>ExponentialBackoff\<close>
  for all their requests) reads and writes the same field. So a run is a
  sequence of segments, each from one \<^verbatim>\<open>await\<close> to the next, and each segment
  takes the object as it finds it and leaves it to whoever runs next. What a run
  keeps to itself between two segments is where it stands: not yet started,
  waiting for call \<open>k\<close> of \<^verbatim>\<open>fn\<close>, asleep before call \<open>k\<close>, or finished; with the
  delays it has slept so far.
\<close>

datatype 'a run_state =
    NotStarted
  | AwaitingFn nat "int list"
  | AwaitingSleep nat "int list"
  | Returned "js_error + 'a" "int list" nat

text \<open>
  One segment. The first sets \<^verbatim>\<open>this.attempt = 0\<close>, enters the loop and calls
  \<^verbatim>\<open>fn\<close>. The segment that follows a call of \<^verbatim>\<open>fn\<close> is the rest of the \<^verbatim>\<open>try\<close> or
  the \<^verbatim>\<open>catch\<close> block: it resets the field and returns, or increments the field
  and then throws or goes to sleep, all on the field's value at that moment. The
  segment that follows a sleep calls \<^verbatim>\<open>fn\<close> again.
\<close>

fun execute_step ::
  "(nat \<Rightarrow> 'a settled) \<Rightarrow> string list option \<Rightarrow> 'a run_state \<Rightarrow> ExponentialBackoff
     \<Rightarrow> 'a run_state \<times> ExponentialBackoff" where
  "execute_step fn retryableErrors NotStarted bo = (AwaitingFn 0 [], bo\<lparr>attempt := 0\<rparr>)"
| "execute_step fn retryableErrors (AwaitingFn k slept) bo =
     (case fn k of
        Fulfilled result \<Rightarrow> (Returned (Inr result) slept (Suc k), bo\<lparr>attempt := 0\<rparr>)
      | Rejected error \<Rightarrow>
          (if propagates retryableErrors error
           then (Returned (Inl error) slept (Suc k), bo\<lparr>attempt := attempt bo + 1\<rparr>)
           else if attempt bo + 1 \<ge> maxAttempts bo
           then (Returned (Inl (exceeded bo error)) slept (Suc k), bo\<lparr>attempt := attempt bo + 1\<rparr>)
           else (AwaitingSleep (Suc k) (slept @ [retryDelay (bo\<lparr>attempt := attempt bo + 1\<rparr>)]),
                 bo\<lparr>attempt := attempt bo + 1\<rparr>)))"
| "execute_step fn retryableErrors (AwaitingSleep k slept) bo = (AwaitingFn k slept, bo)"
| "execute_step fn retryableErrors (Returned out slept c) bo = (Returned out slept c, bo)"

subsection \<open>Runs in flight on one object\<close>

text \<open>
  Several calls of \<^verbatim>\<open>execute\<close> on one object, each with its own \<^verbatim>\<open>fn\<close> and filter
  list. The schedule names, segment by segment, the run that goes on next (the
  order in which the promises settle and the timers fire).
\<close>

record 'a run =
  run_fn :: "nat \<Rightarrow> 'a settled"
  run_filter :: "string list option"
  run_state :: "'a run_state"

fun interleave ::
  "nat list \<Rightarrow> 'a run list \<Rightarrow> ExponentialBackoff \<Rightarrow> 'a run list \<times> ExponentialBackoff" where
  "interleave [] runs bo = (runs, bo)"
| "interleave (i # schedule) runs bo =
     (if i < length runs
      then (case execute_step (run_fn (runs ! i)) (run_filter (runs ! i)) (run_state (runs ! i)) bo of
              (st, bo') \<Rightarrow> interleave schedule (runs[i := (runs ! i)\<lparr>run_state := st\<rparr>]) bo')
      else interleave schedule runs bo)"

subsection \<open>A run with no other run in flight\<close>

text \<open>
  The segments of one run, one after the other, with nothing else touching the
  object in between: the \<^verbatim>\<open>while (true)\<close> loop as one reads it. It ends because
  every pass that does not leave the loop increments \<open>attempt\<close> and has found it
  below \<open>maxAttempts\<close>.
\<close>

function execute_alone ::
  "(nat \<Rightarrow> 'a settled) \<Rightarrow> string list option \<Rightarrow> 'a run_state \<Rightarrow> ExponentialBackoff
     \<Rightarrow> 'a execution" where
  "execute_alone fn retryableErrors (Returned out slept c) bo =
     \<lparr>outcome = out, backoff = bo, sleeps = slept, calls = c\<rparr>"
| "execute_alone fn retryableErrors NotStarted bo =
     (case execute_step fn retryableErrors NotStarted bo of
        (st, bo') \<Rightarrow> execute_alone fn retryableErrors st bo')"
| "execute_alone fn retryableErrors (AwaitingFn k slept) bo =
     (case execute_step fn retryableErrors (AwaitingFn k slept) bo of
        (st, bo') \<Rightarrow> execute_alone fn retryableErrors st bo')"
| "execute_alone fn retryableErrors (AwaitingSleep k slept) bo =
     (case execute_step fn retryableErrors (AwaitingSleep k slept) bo of
        (st, bo') \<Rightarrow> execute_alone fn retryableErrors st bo')"
  by pat_completeness auto
termination
  by (relation "measure (\<lambda>(fn, r, st, bo).
        (case st of
           NotStarted \<Rightarrow> 2 * nat (maxAttempts bo) + 2
         | AwaitingFn k slept \<Rightarrow> 2 * nat (maxAttempts bo - attempt bo) + 1
         | AwaitingSleep k slept \<Rightarrow> 2 * nat (maxAttempts bo - attempt bo) + 2
         | Returned out slept c \<Rightarrow> 0))")
     (auto split: settled.splits if_splits)

declare execute_alone.simps [simp del]

definition execute ::
  "ExponentialBackoff \<Rightarrow> (nat \<Rightarrow> 'a settled) \<Rightarrow> string list option \<Rightarrow> 'a execution" where
  "execute bo fn retryableErrors = execute_alone fn retryableErrors NotStarted bo"

subsection \<open>One pass of the loop\<close>

lemma execute_alone_Returned:
  "execute_alone fn filt (Returned out slept c) bo =
     \<lparr>outcome = out, backoff = bo, sleeps = slept, calls = c\<rparr>"
  by (simp add: execute_alone.simps)

lemma execute_alone_AwaitingSleep:
  "execute_alone fn filt (AwaitingSleep k slept) bo = execute_alone fn filt (AwaitingFn k slept) bo"
  by (simp add: execute_alone.simps(4))

lemma execute_start:
  "execute bo fn filt = execute_alone fn filt (AwaitingFn 0 []) (bo\<lparr>attempt := 0\<rparr>)"
  by (simp add: execute_def execute_alone.simps(2))

lemma execute_alone_Fulfilled:
  "fn k = Fulfilled v \<Longrightarrow>
   execute_alone fn filt (AwaitingFn k slept) bo =
     \<lparr>outcome = Inr v, backoff = bo\<lparr>attempt := 0\<rparr>, sleeps = slept, calls = Suc k\<rparr>"
  by (simp add: execute_alone.simps(3) execute_alone_Returned)

lemma execute_alone_propagates:
  "fn k = Rejected e \<Longrightarrow> propagates filt e \<Longrightarrow>
   execute_alone fn filt (AwaitingFn k slept) bo =
     \<lparr>outcome = Inl e, backoff = bo\<lparr>attempt := attempt bo + 1\<rparr>, sleeps = slept, calls = Suc k\<rparr>"
  by (simp add: execute_alone.simps(3) execute_alone_Returned)

lemma execute_alone_exceeded:
  "fn k = Rejected e \<Longrightarrow> \<not> propagates filt e \<Longrightarrow> maxAttempts bo \<le> attempt bo + 1 \<Longrightarrow>
   execute_alone fn filt (AwaitingFn k slept) bo =
     \<lparr>outcome = Inl (exceeded bo e), backoff = bo\<lparr>attempt := attempt bo + 1\<rparr>,
      sleeps = slept, calls = Suc k\<rparr>"
  by (simp add: execute_alone.simps(3) execute_alone_Returned)

lemma execute_alone_retry:
  "fn k = Rejected e \<Longrightarrow> \<not> propagates filt e \<Longrightarrow> attempt bo + 1 < maxAttempts bo \<Longrightarrow>
   execute_alone fn filt (AwaitingFn k slept) bo =
     execute_alone fn filt
       (AwaitingFn (Suc k) (slept @ [retryDelay (bo\<lparr>attempt := attempt bo + 1\<rparr>)]))
       (bo\<lparr>attempt := attempt bo + 1\<rparr>)"
  by (simp add: execute_alone.simps(3) execute_alone_AwaitingSleep)

subsection \<open>A run alone is a schedule of its own segments\<close>

lemma interleave_one_step:
  "interleave (0 # schedule) [\<lparr>run_fn = fn, run_filter = filt, run_state = st\<rparr>] bo =
     interleave schedule
       [\<lparr>run_fn = fn, run_filter = filt, run_state = fst (execute_step fn filt st bo)\<rparr>]
       (snd (execute_step fn filt st bo))"
  by (simp split: prod.splits)

lemma execute_alone_interleave:
  "\<exists>n. interleave (replicate n 0) [\<lparr>run_fn = fn, run_filter = filt, run_state = st\<rparr>] bo
        = ([\<lparr>run_fn = fn, run_filter = filt,
             run_state = Returned (outcome (execute_alone fn filt st bo))
                           (sleeps (execute_alone fn filt st bo))
                           (calls (execute_alone fn filt st bo))\<rparr>],
           backoff (execute_alone fn filt st bo))"
proof (induction fn filt st bo rule: execute_alone.induct)
  case (1 fn filt out slept c bo)
  have "interleave (replicate 0 0)
      [\<lparr>run_fn = fn, run_filter = filt, run_state = Returned out slept c\<rparr>] bo
        = ([\<lparr>run_fn = fn, run_filter = filt, run_state = Returned out slept c\<rparr>], bo)"
    by simp
  then show ?case unfolding execute_alone_Returned by (intro exI [of _ 0]) simp
next
  case (2 fn filt bo)
  obtain st' bo' where s: "execute_step fn filt NotStarted bo = (st', bo')"
    by (cases "execute_step fn filt NotStarted bo")
  from 2 [OF s [symmetric]] obtain n where
    n: "interleave (replicate n 0) [\<lparr>run_fn = fn, run_filter = filt, run_state = st'\<rparr>] bo'
        = ([\<lparr>run_fn = fn, run_filter = filt,
             run_state = Returned (outcome (execute_alone fn filt st' bo'))
                           (sleeps (execute_alone fn filt st' bo'))
                           (calls (execute_alone fn filt st' bo'))\<rparr>],
           backoff (execute_alone fn filt st' bo'))" by blast
  have e: "execute_alone fn filt NotStarted bo = execute_alone fn filt st' bo'"
    by (simp add: execute_alone.simps(2) s [simplified])
  show ?case
    unfolding e by (rule exI [of _ "Suc n"]) (simp only: replicate_Suc interleave_one_step s fst_conv snd_conv n)
next
  case (3 fn filt k slept bo)
  obtain st' bo' where s: "execute_step fn filt (AwaitingFn k slept) bo = (st', bo')"
    by (cases "execute_step fn filt (AwaitingFn k slept) bo")
  from 3 [OF s [symmetric]] obtain n where
    n: "interleave (replicate n 0) [\<lparr>run_fn = fn, run_filter = filt, run_state = st'\<rparr>] bo'
        = ([\<lparr>run_fn = fn, run_filter = filt,
             run_state = Returned (outcome (execute_alone fn filt st' bo'))
                           (sleeps (execute_alone fn filt st' bo'))
                           (calls (execute_alone fn filt st' bo'))\<rparr>],
           backoff (execute_alone fn filt st' bo'))" by blast
  have e: "execute_alone fn filt (AwaitingFn k slept) bo = execute_alone fn filt st' bo'"
    by (simp only: execute_alone.simps(3) s prod.case)
  show ?case
    unfolding e by (rule exI [of _ "Suc n"]) (simp only: replicate_Suc interleave_one_step s fst_conv snd_conv n)
next
  case (4 fn filt k slept bo)
  obtain st' bo' where s: "execute_step fn filt (AwaitingSleep k slept) bo = (st', bo')"
    by (cases "execute_step fn filt (AwaitingSleep k slept) bo")
  from 4 [OF s [symmetric]] obtain n where
    n: "interleave (replicate n 0) [\<lparr>run_fn = fn, run_filter = filt, run_state = st'\<rparr>] bo'
        = ([\<lparr>run_fn = fn, run_filter = filt,
             run_state = Returned (outcome (execute_alone fn filt st' bo'))
                           (sleeps (execute_alone fn filt st' bo'))
                           (calls (execute_alone fn filt st' bo'))\<rparr>],
           backoff (execute_alone fn filt st' bo'))" by blast
  have e: "execute_alone fn filt (AwaitingSleep k slept) bo = execute_alone fn filt st' bo'"
    by (simp only: execute_alone.simps(4) s prod.case)
  show ?case
    unfolding e by (rule exI [of _ "Suc n"]) (simp only: replicate_Suc interleave_one_step s fst_conv snd_conv n)
qed

lemma execute_is_a_schedule:
  "\<exists>n. interleave (replicate n 0) [\<lparr>run_fn = fn, run_filter = filt, run_state = NotStarted\<rparr>] bo
        = ([\<lparr>run_fn = fn, run_filter = filt,
             run_state = Returned (outcome (execute bo fn filt)) (sleeps (execute bo fn filt))
                           (calls (execute bo fn filt))\<rparr>],
           backoff (execute bo fn filt))"
  unfolding execute_def by (rule execute_alone_interleave)

subsection \<open>A run of failures that are retried\<close>

lemma execute_alone_retries:
  assumes "\<forall>i<j. \<exists>e. fn (k + i) = Rejected e \<and> \<not> propagates filt e"
    and "attempt bo + int j < maxAttempts bo"
  shows "execute_alone fn filt (AwaitingFn k slept) bo =
         execute_alone fn filt
           (AwaitingFn (k + j)
              (slept @ map (\<lambda>a. min (baseDelay bo * 2 ^ nat (a - 1)) (maxDelay bo))
                         [attempt bo + 1 .. attempt bo + int j]))
           (bo\<lparr>attempt := attempt bo + int j\<rparr>)"
  using assms
proof (induction j arbitrary: bo k slept)
  case 0
  then show ?case by simp
next
  case (Suc j)
  let ?bo = "bo\<lparr>attempt := attempt bo + 1\<rparr>"
  from Suc.prems(1) obtain e where e: "fn k = Rejected e" "\<not> propagates filt e"
    by (metis add.right_neutral zero_less_Suc)
  have lt: "attempt bo + 1 < maxAttempts bo" using Suc.prems(2) by simp
  have step: "execute_alone fn filt (AwaitingFn k slept) bo =
      execute_alone fn filt (AwaitingFn (Suc k) (slept @ [retryDelay ?bo])) ?bo"
    using e lt by (rule execute_alone_retry)
  have rest: "\<forall>i<j. \<exists>e. fn (Suc k + i) = Rejected e \<and> \<not> propagates filt e"
    using Suc.prems(1) by (metis Suc_less_eq add_Suc_shift)
  have lt': "attempt ?bo + int j < maxAttempts ?bo" using Suc.prems(2) by simp
  have up: "[attempt bo + 1 .. attempt bo + int (Suc j)]
            = (attempt bo + 1) # [attempt ?bo + 1 .. attempt ?bo + int j]"
    by (subst upto_rec1) (simp_all add: add.commute add.left_commute)
  show ?case
    unfolding step Suc.IH [OF rest lt'] up
    by (simp add: retryDelay_def add.commute add.left_commute)
qed

lemma execute_after_retries:
  assumes "\<forall>i<j. \<exists>e. fn i = Rejected e \<and> \<not> propagates filt e"
    and "int j < maxAttempts bo"
  shows "execute bo fn filt =
         execute_alone fn filt
           (AwaitingFn j (map (\<lambda>a. min (baseDelay bo * 2 ^ nat (a - 1)) (maxDelay bo)) [1 .. int j]))
           (bo\<lparr>attempt := int j\<rparr>)"
proof -
  have 1: "\<forall>i<j. \<exists>e. fn (0 + i) = Rejected e \<and> \<not> propagates filt e"
    using assms(1) by simp
  have 2: "attempt (bo\<lparr>attempt := 0\<rparr>) + int j < maxAttempts (bo\<lparr>attempt := 0\<rparr>)"
    using assms(2) by simp
  show ?thesis
    unfolding execute_start execute_alone_retries [OF 1 2] by simp
qed

subsection \<open>The contract of \<open>execute\<close>\<close>

text \<open>
  C7, as stated, fails in two ways.

  With the empty list as the filter list: the first call fails with an error
  that matches no entry of the list, and yet it is retried, and the value of the
  second call is returned.

  With a second run in flight on the same object (\<open>maxAttempts = 3\<close>): the
  operation of the first run fails twice and would succeed at its third call,
  the operation of the second run fails. Both runs start, both first calls fail
  (the counter goes to 1, then to 2) and both runs go to sleep; the first run
  wakes and its second call fails: the counter goes to 3, and the run throws
  the terminal error after two failures, without a third call. Alone on the
  object the same operation is given its third call and returns 7.
\<close>

theorem execute_contract_counterexample:
  "\<not> isRetryable [] \<lparr>message = Some ''boom'', code = None\<rparr>
   \<and> outcome (execute (newExponentialBackoff 3 1000 30000)
        (\<lambda>k. if k < 1 then Rejected \<lparr>message = Some ''boom'', code = None\<rparr>
             else Fulfilled (7::nat)) (Some [])) = Inr 7
   \<and> calls (execute (newExponentialBackoff 3 1000 30000)
        (\<lambda>k. if k < 1 then Rejected \<lparr>message = Some ''boom'', code = None\<rparr>
             else Fulfilled (7::nat)) (Some [])) = 2
   \<and> map run_state
       (fst (interleave [0, 1, 0, 1, 0, 0]
          [\<lparr>run_fn = (\<lambda>k. if k < 2 then Rejected \<lparr>message = Some ''ECONNRESET'', code = None\<rparr>
                          else Fulfilled (7::nat)),
            run_filter = None, run_state = NotStarted\<rparr>,
           \<lparr>run_fn = (\<lambda>k. Rejected \<lparr>message = Some ''boom'', code = None\<rparr>),
            run_filter = None, run_state = NotStarted\<rparr>]
          (newExponentialBackoff 3 1000 30000)))
       = [Returned (Inl \<lparr>message = Some ''Max retry attempts (3) exceeded: ECONNRESET'',
                        code = None\<rparr>) [1000] 2,
          AwaitingSleep 1 [2000]]
   \<and> outcome (execute (newExponentialBackoff 3 1000 30000)
        (\<lambda>k. if k < 2 then Rejected \<lparr>message = Some ''ECONNRESET'', code = None\<rparr>
             else Fulfilled (7::nat)) None) = Inr 7"
  by code_simp

text \<open>
  C7, amended. For a run of \<open>execute\<close> with no other run in flight on the same
  object (\<open>execute\<close> below is that run: its segments one after the other). A
  failure is retried unless a non-empty filter list is supplied and the error
  matches no entry of it (an empty list is no filter).
  (1) If the first \<open>k < maxAttempts\<close> calls fail and are retried and call \<open>k\<close>
  succeeds with \<open>v\<close>, \<open>execute\<close> returns \<open>v\<close> and leaves the attempt counter at 0.
  (2) If the first \<open>maxAttempts\<close> calls fail so (the first call, when \<open>maxAttempts\<close>
  is below 1), \<open>execute\<close> throws an error whose message names \<open>maxAttempts\<close> and
  ends with the message of the last failure.
  (3) In every case the delays slept are, in order,
  \<open>min (baseDelay * 2^(a-1)) maxDelay\<close> for the retries \<open>a = 1, 2, \<dots>\<close>.
  (4) With a non-empty filter list, the first failure that matches no entry is
  thrown as it is, and the operation is not called again.
\<close>

theorem execute_retry_contract:
  "(int k < maxAttempts bo
      \<and> (\<forall>i<k. \<exists>e. fn i = Rejected e \<and> \<not> propagates filt e)
      \<and> fn k = Fulfilled v
    \<longrightarrow> outcome (execute bo fn filt) = Inr v
        \<and> attempt (backoff (execute bo fn filt)) = 0
        \<and> sleeps (execute bo fn filt)
            = map (\<lambda>a. min (baseDelay bo * 2 ^ nat (a - 1)) (maxDelay bo)) [1 .. int k]
        \<and> calls (execute bo fn filt) = Suc k)
   \<and> (max 1 (maxAttempts bo) = int (Suc n)
      \<and> (\<forall>i<n. \<exists>e. fn i = Rejected e \<and> \<not> propagates filt e)
      \<and> fn n = Rejected cause \<and> \<not> propagates filt cause
    \<longrightarrow> outcome (execute bo fn filt)
          = Inl \<lparr>message = Some (''Max retry attempts ('' @ show_int (maxAttempts bo)
                                   @ '') exceeded: '' @ template_text (message cause)),
                 code = None\<rparr>
        \<and> attempt (backoff (execute bo fn filt)) = int (Suc n)
        \<and> sleeps (execute bo fn filt)
            = map (\<lambda>a. min (baseDelay bo * 2 ^ nat (a - 1)) (maxDelay bo)) [1 .. int n]
        \<and> calls (execute bo fn filt) = Suc n)
   \<and> (filt = Some errs \<and> errs \<noteq> []
      \<and> (j = 0 \<or> int j < maxAttempts bo)
      \<and> (\<forall>i<j. \<exists>e. fn i = Rejected e \<and> \<not> propagates filt e)
      \<and> fn j = Rejected err \<and> \<not> isRetryable errs err
    \<longrightarrow> outcome (execute bo fn filt) = Inl err
        \<and> sleeps (execute bo fn filt)
            = map (\<lambda>a. min (baseDelay bo * 2 ^ nat (a - 1)) (maxDelay bo)) [1 .. int j]
        \<and> calls (execute bo fn filt) = Suc j)"
proof (intro conjI impI)
  assume h: "int k < maxAttempts bo
      \<and> (\<forall>i<k. \<exists>e. fn i = Rejected e \<and> \<not> propagates filt e) \<and> fn k = Fulfilled v"
  then have h1: "int k < maxAttempts bo"
    and h2: "\<forall>i<k. \<exists>e. fn i = Rejected e \<and> \<not> propagates filt e"
    and h3: "fn k = Fulfilled v" by blast+
  have run: "execute bo fn filt =
      \<lparr>outcome = Inr v, backoff = bo\<lparr>attempt := int k\<rparr>\<lparr>attempt := 0\<rparr>,
       sleeps = map (\<lambda>a. min (baseDelay bo * 2 ^ nat (a - 1)) (maxDelay bo)) [1 .. int k],
       calls = Suc k\<rparr>"
    unfolding execute_after_retries [OF h2 h1] by (rule execute_alone_Fulfilled [of fn k v, OF h3])
  show "outcome (execute bo fn filt) = Inr v" by (simp add: run)
  show "attempt (backoff (execute bo fn filt)) = 0" by (simp add: run)
  show "sleeps (execute bo fn filt)
      = map (\<lambda>a. min (baseDelay bo * 2 ^ nat (a - 1)) (maxDelay bo)) [1 .. int k]"
    by (simp add: run)
  show "calls (execute bo fn filt) = Suc k" by (simp add: run)
next
  assume h: "max 1 (maxAttempts bo) = int (Suc n)
      \<and> (\<forall>i<n. \<exists>e. fn i = Rejected e \<and> \<not> propagates filt e)
      \<and> fn n = Rejected cause \<and> \<not> propagates filt cause"
  then have h1: "max 1 (maxAttempts bo) = int (Suc n)"
    and h2: "\<forall>i<n. \<exists>e. fn i = Rejected e \<and> \<not> propagates filt e"
    and h3: "fn n = Rejected cause" and h4: "\<not> propagates filt cause" by blast+
  have le: "maxAttempts (bo\<lparr>attempt := int n\<rparr>) \<le> attempt (bo\<lparr>attempt := int n\<rparr>) + 1"
    using h1 by simp
  have start: "execute bo fn filt =
      execute_alone fn filt
        (AwaitingFn n (map (\<lambda>a. min (baseDelay bo * 2 ^ nat (a - 1)) (maxDelay bo)) [1 .. int n]))
        (bo\<lparr>attempt := int n\<rparr>)"
  proof (cases "n = 0")
    case True
    then show ?thesis by (simp add: execute_start)
  next
    case False
    with h1 have "int n < maxAttempts bo" by simp
    from execute_after_retries [OF h2 this] show ?thesis .
  qed
  have run: "execute bo fn filt =
      \<lparr>outcome = Inl (exceeded (bo\<lparr>attempt := int n\<rparr>) cause),
       backoff = bo\<lparr>attempt := int n\<rparr>\<lparr>attempt := attempt (bo\<lparr>attempt := int n\<rparr>) + 1\<rparr>,
       sleeps = map (\<lambda>a. min (baseDelay bo * 2 ^ nat (a - 1)) (maxDelay bo)) [1 .. int n],
       calls = Suc n\<rparr>"
    unfolding start by (rule execute_alone_exceeded [of fn n cause, OF h3 h4 le])
  show "outcome (execute bo fn filt)
          = Inl \<lparr>message = Some (''Max retry attempts ('' @ show_int (maxAttempts bo)
                                   @ '') exceeded: '' @ template_text (message cause)),
                 code = None\<rparr>"
    by (simp add: run exceeded_def)
  show "attempt (backoff (execute bo fn filt)) = int (Suc n)" by (simp add: run)
  show "sleeps (execute bo fn filt)
      = map (\<lambda>a. min (baseDelay bo * 2 ^ nat (a - 1)) (maxDelay bo)) [1 .. int n]"
    by (simp add: run)
  show "calls (execute bo fn filt) = Suc n" by (simp add: run)
next
  assume h: "filt = Some errs \<and> errs \<noteq> []
      \<and> (j = 0 \<or> int j < maxAttempts bo)
      \<and> (\<forall>i<j. \<exists>e. fn i = Rejected e \<and> \<not> propagates filt e)
      \<and> fn j = Rejected err \<and> \<not> isRetryable errs err"
  then have h2: "\<forall>i<j. \<exists>e. fn i = Rejected e \<and> \<not> propagates filt e"
    and h3: "fn j = Rejected err" by blast+
  have p: "propagates filt err" using h by (simp add: propagates_def)
  have run: "execute bo fn filt =
      execute_alone fn filt
        (AwaitingFn j (map (\<lambda>a. min (baseDelay bo * 2 ^ nat (a - 1)) (maxDelay bo)) [1 .. int j]))
        (bo\<lparr>attempt := int j\<rparr>)"
  proof (cases "j = 0")
    case True
    then show ?thesis by (simp add: execute_start)
  next
    case False
    with h have "int j < maxAttempts bo" by blast
    from execute_after_retries [OF h2 this] show ?thesis .
  qed
  have fin: "execute bo fn filt =
      \<lparr>outcome = Inl err,
       backoff = bo\<lparr>attempt := int j\<rparr>\<lparr>attempt := attempt (bo\<lparr>attempt := int j\<rparr>) + 1\<rparr>,
       sleeps = map (\<lambda>a. min (baseDelay bo * 2 ^ nat (a - 1)) (maxDelay bo)) [1 .. int j],
       calls = Suc j\<rparr>"
    unfolding run by (rule execute_alone_propagates [of fn j err, OF h3 p])
  show "outcome (execute bo fn filt) = Inl err" by (simp add: fin)
  show "sleeps (execute bo fn filt)
      = map (\<lambda>a. min (baseDelay bo * 2 ^ nat (a - 1)) (maxDelay bo)) [1 .. int j]"
    by (simp add: fin)
  show "calls (execute bo fn filt) = Suc j" by (simp add: fin)
qed

theorem execute_retry_contract_witness:
  "outcome (execute (newExponentialBackoff 3 1000 30000)
      (\<lambda>k. if k < 2 then Rejected \<lparr>message = Some ''ECONNRESET'', code = None\<rparr>
           else Fulfilled (7::nat)) None) = Inr 7
   \<and> sleeps (execute (newExponentialBackoff 3 1000 30000)
      (\<lambda>k. if k < 2 then Rejected \<lparr>message = Some ''ECONNRESET'', code = None\<rparr>
           else Fulfilled (7::nat)) None) = [1000, 2000]
   \<and> outcome (execute (newExponentialBackoff 3 1000 30000)
      (\<lambda>k. Rejected \<lparr>message = Some ''boom'', code = None\<rparr> :: nat settled) None)
       = Inl \<lparr>message = Some ''Max retry attempts (3) exceeded: boom'', code = None\<rparr>
   \<and> calls (execute (newExponentialBackoff 3 1000 30000)
      (\<lambda>k. Rejected \<lparr>message = Some ''boom'', code = None\<rparr> :: nat settled) None) = 3
   \<and> outcome (execute (newExponentialBackoff 3 1000 30000)
      (\<lambda>k. Rejected \<lparr>message = Some ''boom'', code = None\<rparr> :: nat settled) (Some [''timeout'']))
       = Inl \<lparr>message = Some ''boom'', code = None\<rparr>
   \<and> calls (execute (newExponentialBackoff 3 1000 30000)
      (\<lambda>k. Rejected \<lparr>message = Some ''boom'', code = None\<rparr> :: nat settled) (Some [''timeout''])) = 1"
proof -
  let ?bo = "newExponentialBackoff 3 1000 30000"
  let ?flaky = "\<lambda>k::nat. if k < 2 then Rejected \<lparr>message = Some ''ECONNRESET'', code = None\<rparr>
                     else Fulfilled (7::nat)"
  let ?boom = "\<lparr>message = Some ''boom'', code = None\<rparr>"
  let ?down = "\<lambda>k::nat. Rejected ?boom :: nat settled"
  have three: "show_int 3 = ''3''" by code_simp
  have up: "[1 .. 2::int] = [1, 2]" by code_simp
  have a: "int 2 < maxAttempts ?bo
      \<and> (\<forall>i<2. \<exists>e. ?flaky i = Rejected e \<and> \<not> propagates None e)
      \<and> ?flaky 2 = Fulfilled 7"
    by (simp add: newExponentialBackoff_def propagates_def)
  have b: "max 1 (maxAttempts ?bo) = int (Suc 2)
      \<and> (\<forall>i<2. \<exists>e. ?down i = Rejected e \<and> \<not> propagates None e)
      \<and> ?down 2 = Rejected ?boom \<and> \<not> propagates None ?boom"
    by (simp add: newExponentialBackoff_def propagates_def)
  have nr: "\<not> isRetryable [''timeout''] ?boom" by code_simp
  have c: "Some [''timeout''] = Some [''timeout''] \<and> [''timeout''] \<noteq> []
      \<and> (0 = (0::nat) \<or> int 0 < maxAttempts ?bo)
      \<and> (\<forall>i<0. \<exists>e. ?down i = Rejected e \<and> \<not> propagates (Some [''timeout'']) e)
      \<and> ?down 0 = Rejected ?boom \<and> \<not> isRetryable [''timeout''] ?boom"
    using nr by simp
  note t1 = execute_retry_contract [of 2 ?bo ?flaky None 7 0 ?boom "[]" 0 ?boom,
      THEN conjunct1, rule_format, OF a]
  note t2 = execute_retry_contract [of 0 ?bo ?down None 0 2 ?boom "[]" 0 ?boom,
      THEN conjunct2, THEN conjunct1, rule_format, OF b]
  note t3 = execute_retry_contract [of 0 ?bo ?down "Some [''timeout'']" 0 0 ?boom "[''timeout'']" 0 ?boom,
      THEN conjunct2, THEN conjunct2, rule_format, OF c]
  have d: "map (\<lambda>a. min (1000 * 2 ^ nat (a - 1)) (30000::int)) [1 .. 2::int] = [1000, 2000]"
    by (simp add: up)
  show ?thesis
    using t1 t2 t3 by (simp add: three d newExponentialBackoff_def template_text_def)
qed

section \<open>Batch processing (BatchProcessor)\<close>

text \<open>
  A work item: the fields \<^verbatim>\<open>id\<close> and \<^verbatim>\<open>name\<close> of \<^verbatim>\<open>BatchTask\<close>, and whatever
  else the item carries (the record is extensible).
\<close>

record BatchTask =
  task_id :: string
  task_name :: string

text \<open>
  \<^verbatim>\<open>TaskResult\<close> without its \<^verbatim>\<open>duration\<close>, which is a difference of two clock
  readings and takes part in no decision.
\<close>

record 'r TaskResult =
  taskId :: string
  taskName :: "string option"
  success :: bool
  error :: "string option"
  data :: "'r option"
  retryCount :: nat

text \<open>
  The per-item operation is an effectful closure: \<open>processor task k\<close> is what its
  \<open>k\<close>-th call on \<open>task\<close> does, counting from 0, either the data it resolves
  with or the message of the error it throws (\<^verbatim>\<open>processTaskWithRetry\<close> turns
  every thrown value into an \<^verbatim>\<open>Error\<close> first, so there always is a message).
\<close>

type_synonym ('t, 'r) processor = "'t \<Rightarrow> nat \<Rightarrow> string + 'r"

text \<open>
  The two callbacks of \<^verbatim>\<open>BatchOptions\<close> are the caller's code, and either may
  throw. A call of a callback is given as what it does: \<open>None\<close> when it returns,
  the message of the error when it throws. \<^verbatim>\<open>onError(lastError, task)\<close> is called
  once per failed attempt, so it has the number of the attempt as a third
  argument (like \<open>processor\<close>, it may do something else each time);
  \<^verbatim>\<open>onProgress(processed, total)\<close> is called once per batch.
\<close>

type_synonym 't onError_callback = "string \<Rightarrow> 't \<Rightarrow> nat \<Rightarrow> string option"

type_synonym onProgress_callback = "nat \<Rightarrow> nat \<Rightarrow> string option"

text \<open>\<^verbatim>\<open>if (onError) { onError(lastError, task); }\<close>\<close>

definition call_onError :: "'t onError_callback option \<Rightarrow> string \<Rightarrow> 't \<Rightarrow> nat \<Rightarrow> string option" where
  "call_onError onError' msg task k =
     (case onError' of None \<Rightarrow> None | Some callback \<Rightarrow> callback msg task k)"

text \<open>\<^verbatim>\<open>if (onProgress) { onProgress(actualProcessed, tasks.length); }\<close>\<close>

definition call_onProgress :: "onProgress_callback option \<Rightarrow> nat \<Rightarrow> nat \<Rightarrow> string option" where
  "call_onProgress onProgress' processed totalTasks =
     (case onProgress' of None \<Rightarrow> None | Some callback \<Rightarrow> callback processed totalTasks)"

text \<open>
  The \<^verbatim>\<open>while (retryCount <= maxRetries)\<close> loop of \<^verbatim>\<open>processTaskWithRetry\<close> and
  the failure result after it. The function is \<^verbatim>\<open>async\<close>: it resolves with a
  result (\<open>Inr\<close>), or, when \<^verbatim>\<open>onError\<close> throws inside the \<^verbatim>\<open>catch\<close> block, rejects
  with what \<^verbatim>\<open>onError\<close> threw (\<open>Inl\<close>, the message). The waits between attempts
  are timers and \<^verbatim>\<open>logTaskFailure\<close> catches its own errors: neither throws nor
  changes what is returned, and they are left out.
\<close>

function processTaskWithRetry_loop ::
  "'t BatchTask_scheme \<Rightarrow> ('t BatchTask_scheme, 'r) processor \<Rightarrow> int
     \<Rightarrow> 't BatchTask_scheme onError_callback option \<Rightarrow> nat \<Rightarrow> string option
     \<Rightarrow> string + 'r TaskResult" where
  "processTaskWithRetry_loop task processor maxRetries' onError' retryCount' lastError =
     (if int retryCount' \<le> maxRetries'
      then (case processor task retryCount' of
              Inr data' \<Rightarrow>
                Inr \<lparr>taskId = task_id task, taskName = Some (task_name task), success = True,
                     error = None, data = Some data', retryCount = retryCount'\<rparr>
            | Inl msg \<Rightarrow>
                (case call_onError onError' msg task retryCount' of
                   Some thrown \<Rightarrow> Inl thrown
                 | None \<Rightarrow>
                     processTaskWithRetry_loop task processor maxRetries' onError'
                       (Suc retryCount') (Some msg)))
      else Inr \<lparr>taskId = task_id task, taskName = Some (task_name task), success = False,
                 error = Some (''Failed after '' @ show_int maxRetries' @ '' retries: ''
                               @ template_text lastError),
                 data = None, retryCount = retryCount'\<rparr>)"
  by pat_completeness auto
termination
  by (relation "measure (\<lambda>(t, p, m, c, k, e). nat (m + 1 - int k))") auto

declare processTaskWithRetry_loop.simps [simp del]

definition processTaskWithRetry ::
  "'t BatchTask_scheme \<Rightarrow> ('t BatchTask_scheme, 'r) processor \<Rightarrow> int
     \<Rightarrow> 't BatchTask_scheme onError_callback option \<Rightarrow> string + 'r TaskResult" where
  "processTaskWithRetry task processor maxRetries' onError' =
     processTaskWithRetry_loop task processor maxRetries' onError' 0 None"

text \<open>
  \<^verbatim>\<open>processSequential\<close>: the tasks one after the other. A task whose
  \<^verbatim>\<open>processTaskWithRetry\<close> rejects ends the loop, and the results collected so far
  are lost with it.
\<close>

fun processSequential_loop ::
  "'t BatchTask_scheme list \<Rightarrow> ('t BatchTask_scheme, 'r) processor \<Rightarrow> int
     \<Rightarrow> 't BatchTask_scheme onError_callback option \<Rightarrow> 'r TaskResult list
     \<Rightarrow> string + 'r TaskResult list" where
  "processSequential_loop [] processor maxRetries' onError' results' = Inr results'"
| "processSequential_loop (task # rest) processor maxRetries' onError' results' =
     (case processTaskWithRetry task processor maxRetries' onError' of
        Inl thrown \<Rightarrow> Inl thrown
      | Inr result \<Rightarrow>
          processSequential_loop rest processor maxRetries' onError' (results' @ [result]))"

definition processSequential ::
  "'t BatchTask_scheme list \<Rightarrow> ('t BatchTask_scheme, 'r) processor \<Rightarrow> int
     \<Rightarrow> 't BatchTask_scheme onError_callback option \<Rightarrow> string + 'r TaskResult list" where
  "processSequential tasks processor maxRetries' onError' =
     processSequential_loop tasks processor maxRetries' onError' []"

subsection \<open>The parallel path\<close>

text \<open>
  A promise is an object with an identity; \<^verbatim>\<open>===\<close> on two promises compares
  identities. \<open>pid\<close> is the identity, \<open>pvalue\<close> what the promise settles with: the
  result it resolves with, or what it rejects with. Identities are handed out
  from a counter, \<open>nextId\<close>.
\<close>

record 'r promise =
  pid :: nat
  pvalue :: "string + 'r TaskResult"

record ('t, 'r) parallel_state =
  collected :: "'r TaskResult list"
  queue :: "'t list"
  inProgress :: "'r promise list"
  nextId :: nat

text \<open>
  The inner loop
  \<^verbatim>\<open>while (queue.length > 0 && inProgress.length < maxParallel)\<close>: shift a task,
  start it, push its promise.
\<close>

fun fill ::
  "('t \<Rightarrow> string + 'r TaskResult) \<Rightarrow> int \<Rightarrow> 't list \<Rightarrow> 'r promise list \<Rightarrow> nat
     \<Rightarrow> 't list \<times> 'r promise list \<times> nat" where
  "fill run maxParallel' [] inProgress' nextId' = ([], inProgress', nextId')"
| "fill run maxParallel' (task # queue') inProgress' nextId' =
     (if int (length inProgress') < maxParallel'
      then fill run maxParallel' queue'
             (inProgress' @ [\<lparr>pid = nextId', pvalue = run task\<rparr>]) (Suc nextId')
      else (task # queue', inProgress', nextId'))"

text \<open>
  \<^verbatim>\<open>await Promise.race(inProgress)\<close>. Which promise settles first is the
  scheduler's choice: \<open>sched iter\<close> picks the winner of the \<open>iter\<close>-th race among
  the promises in flight. A race among no promises never settles (\<open>None\<close>).
  When the winner has rejected, the \<^verbatim>\<open>await\<close> throws, and \<^verbatim>\<open>processParallel\<close>
  rejects with it.
\<close>

definition race :: "(nat \<Rightarrow> nat) \<Rightarrow> nat \<Rightarrow> 'r promise list \<Rightarrow> 'r promise option" where
  "race sched iter ps = (if ps = [] then None else Some (ps ! (sched iter mod length ps)))"

text \<open>
  \<^verbatim>\<open>inProgress.findIndex(p => p === Promise.resolve(result))\<close>. The result is
  a plain object, so every evaluation of \<^verbatim>\<open>Promise.resolve(result)\<close> makes a new
  promise, with the next identity; the callback runs once per element until
  one is found.
\<close>

fun findIndex_resolved :: "'r promise list \<Rightarrow> nat \<Rightarrow> nat \<Rightarrow> nat option \<times> nat" where
  "findIndex_resolved [] i nextId' = (None, nextId')"
| "findIndex_resolved (p # ps) i nextId' =
     (if pid p = nextId' then (Some i, Suc nextId')
      else findIndex_resolved ps (Suc i) (Suc nextId'))"

text \<open>\<^verbatim>\<open>xs.splice(i, 1)\<close>\<close>

definition splice1 :: "'a list \<Rightarrow> nat \<Rightarrow> 'a list" where
  "splice1 xs i = take i xs @ drop (Suc i) xs"

text \<open>
  The outer loop \<^verbatim>\<open>while (queue.length > 0 || inProgress.length > 0)\<close>. Nothing
  bounds its passes, so it is a partial function: \<open>None\<close> is not returning,
  \<open>Some (Inl thrown)\<close> is throwing, \<open>Some (Inr results)\<close> is returning.
\<close>

partial_function (option) processParallel_loop ::
  "('t \<Rightarrow> string + 'r TaskResult) \<Rightarrow> int \<Rightarrow> (nat \<Rightarrow> nat) \<Rightarrow> nat \<Rightarrow> ('t, 'r) parallel_state
     \<Rightarrow> (string + 'r TaskResult list) option" where
  "processParallel_loop run maxParallel' sched iter st =
     (if queue st \<noteq> [] \<or> inProgress st \<noteq> []
      then (case fill run maxParallel' (queue st) (inProgress st) (nextId st) of
              (queue', inProgress', nextId') \<Rightarrow>
                (case race sched iter inProgress' of
                   None \<Rightarrow> None
                 | Some winner \<Rightarrow>
                     (case pvalue winner of
                        Inl thrown \<Rightarrow> Some (Inl thrown)
                      | Inr result \<Rightarrow>
                          (case findIndex_resolved inProgress' 0 nextId' of
                             (None, nextId'') \<Rightarrow>
                               processParallel_loop run maxParallel' sched (Suc iter)
                                 \<lparr>collected = collected st @ [result], queue = queue',
                                  inProgress = inProgress', nextId = nextId''\<rparr>
                           | (Some index, nextId'') \<Rightarrow>
                               processParallel_loop run maxParallel' sched (Suc iter)
                                 \<lparr>collected = collected st @ [result], queue = queue',
                                  inProgress = splice1 inProgress' index, nextId = nextId''\<rparr>))))
      else Some (Inr (collected st)))"

definition processParallel ::
  "'t BatchTask_scheme list \<Rightarrow> ('t BatchTask_scheme, 'r) processor \<Rightarrow> int \<Rightarrow> int
     \<Rightarrow> 't BatchTask_scheme onError_callback option \<Rightarrow> (nat \<Rightarrow> nat)
     \<Rightarrow> (string + 'r TaskResult list) option" where
  "processParallel tasks processor maxParallel' maxRetries' onError' sched =
     processParallel_loop (\<lambda>task. processTaskWithRetry task processor maxRetries' onError')
       maxParallel' sched 0 \<lparr>collected = [], queue = tasks, inProgress = [], nextId = 0\<rparr>"

subsection \<open>The batch loop\<close>

text \<open>
  The options, with their two callbacks. \<^verbatim>\<open>BatchResult\<close> is modelled without
  \<^verbatim>\<open>duration\<close>, and with what the run did besides, in order: the progress
  updates, the inter-batch waits, and the entries \<^verbatim>\<open>logError\<close> was given by the
  \<^verbatim>\<open>catch\<close> branch (the index of the batch, which its message names, and the
  message of the error caught).
\<close>

record 't BatchOptions =
  maxRetries :: int
  parallel :: bool
  maxParallel :: int
  delayBetweenBatches :: int
  onProgress :: "onProgress_callback option"
  onError :: "'t onError_callback option"

definition defaultBatchOptions :: "'t BatchOptions" where
  "defaultBatchOptions =
     \<lparr>maxRetries = 3, parallel = False, maxParallel = 5, delayBetweenBatches = 650,
      onProgress = None, onError = None\<rparr>"

record 'r BatchResult =
  successful :: nat
  failed :: nat
  skipped :: nat
  results :: "'r TaskResult list"
  progress :: "(nat \<times> nat) list"
  waits :: "int list"
  batch_errors :: "(nat \<times> string) list"

text \<open>The counting loop over one batch's results.\<close>

fun countResults :: "'r TaskResult list \<Rightarrow> nat \<times> nat \<times> nat \<Rightarrow> nat \<times> nat \<times> nat" where
  "countResults [] counts = counts"
| "countResults (result # rest) (successful', failed', skipped') =
     countResults rest
       (if success result then (Suc successful', failed', skipped')
        else if opt_includes (error result) ''skipped'' then (successful', failed', Suc skipped')
        else (successful', Suc failed', skipped'))"

text \<open>
  The \<^verbatim>\<open>catch\<close> branch of the batch loop: \<^verbatim>\<open>logError\<close> (which catches its own
  errors) and \<^verbatim>\<open>failed += batch.length\<close>.
\<close>

definition batch_failed :: "nat \<Rightarrow> 'a list \<Rightarrow> string \<Rightarrow> 'r BatchResult \<Rightarrow> 'r BatchResult" where
  "batch_failed index batch thrown acc =
     acc\<lparr>failed := failed acc + length batch,
         batch_errors := batch_errors acc @ [(index, thrown)]\<rparr>"

text \<open>
  The loop over the batches, \<open>sched index\<close> being the scheduler of batch \<open>index\<close>.
  Inside the \<^verbatim>\<open>try\<close> block two things can throw: the processing of the batch
  (when \<^verbatim>\<open>onError\<close> throws), before anything is counted, and \<^verbatim>\<open>onProgress\<close>, after
  the results have been counted and pushed and the progress has been updated.
  Either way the \<^verbatim>\<open>catch\<close> branch runs, and the loop goes on with the next
  batch. \<^verbatim>\<open>updateProgress\<close> catches its own errors.
\<close>

fun processBatch_loop ::
  "'t BatchTask_scheme list \<Rightarrow> nat \<Rightarrow> ('t BatchTask_scheme, 'r) processor
     \<Rightarrow> 't BatchTask_scheme BatchOptions
     \<Rightarrow> (nat \<Rightarrow> nat \<Rightarrow> nat) \<Rightarrow> nat \<Rightarrow> 't BatchTask_scheme list list \<Rightarrow> 'r BatchResult
     \<Rightarrow> 'r BatchResult option" where
  "processBatch_loop tasks batchSize processor options sched index [] acc = Some acc"
| "processBatch_loop tasks batchSize processor options sched index (batch # rest) acc =
     (case (if parallel options
            then processParallel batch processor (maxParallel options) (maxRetries options)
                   (onError options) (sched index)
            else Some (processSequential batch processor (maxRetries options) (onError options))) of
        None \<Rightarrow> None
      | Some (Inl thrown) \<Rightarrow>
          processBatch_loop tasks batchSize processor options sched (Suc index) rest
            (batch_failed index batch thrown acc)
      | Some (Inr batchResults) \<Rightarrow>
          (case countResults batchResults (successful acc, failed acc, skipped acc) of
             (successful', failed', skipped') \<Rightarrow>
               (case call_onProgress (onProgress options)
                       (min ((index + 1) * (if batchSize = 0 then length tasks else batchSize))
                            (length tasks)) (length tasks) of
                  Some thrown \<Rightarrow>
                    processBatch_loop tasks batchSize processor options sched (Suc index) rest
                      (batch_failed index batch thrown
                         \<lparr>successful = successful', failed = failed', skipped = skipped',
                          results = results acc @ batchResults,
                          progress = progress acc
                            @ [(min ((index + 1) * (if batchSize = 0 then length tasks else batchSize))
                                    (length tasks), length tasks)],
                          waits = waits acc, batch_errors = batch_errors acc\<rparr>)
                | None \<Rightarrow>
                    processBatch_loop tasks batchSize processor options sched (Suc index) rest
                      \<lparr>successful = successful', failed = failed', skipped = skipped',
                       results = results acc @ batchResults,
                       progress = progress acc
                         @ [(min ((index + 1) * (if batchSize = 0 then length tasks else batchSize))
                                 (length tasks), length tasks)],
                       waits = (if rest \<noteq> [] \<and> 0 < delayBetweenBatches options
                                then waits acc @ [delayBetweenBatches options] else waits acc),
                       batch_errors = batch_errors acc\<rparr>)))"

definition processBatch ::
  "'t BatchTask_scheme list \<Rightarrow> nat \<Rightarrow> ('t BatchTask_scheme, 'r) processor
     \<Rightarrow> 't BatchTask_scheme BatchOptions
     \<Rightarrow> (nat \<Rightarrow> nat \<Rightarrow> nat) \<Rightarrow> 'r BatchResult option" where
  "processBatch tasks batchSize processor options sched =
     (case createBatches tasks batchSize of
        None \<Rightarrow> None
      | Some batches \<Rightarrow>
          processBatch_loop tasks batchSize processor options sched 0 batches
            \<lparr>successful = 0, failed = 0, skipped = 0, results = [], progress = [], waits = [],
             batch_errors = []\<rparr>)"
subsection \<open>The parallel path never returns while work is in flight\<close>

text \<open>
  Every promise in flight has an identity below the counter, so the promise
  \<^verbatim>\<open>Promise.resolve(result)\<close> newly made for the comparison is none of them:
  \<^verbatim>\<open>findIndex\<close> finds nothing and nothing is ever removed from \<^verbatim>\<open>inProgress\<close>.
\<close>

lemma fill_fresh:
  "fill run m q ip n = (q', ip', n') \<Longrightarrow> \<forall>p \<in> set ip. pid p < n \<Longrightarrow> \<forall>p \<in> set ip'. pid p < n'"
proof (induction run m q ip n rule: fill.induct)
  case (1 run maxParallel inProgress' nextId')
  then show ?case by simp
next
  case (2 run maxParallel task queue' inProgress' nextId')
  show ?case
  proof (cases "int (length inProgress') < maxParallel")
    case True
    have "\<forall>p \<in> set (inProgress' @ [\<lparr>pid = nextId', pvalue = run task\<rparr>]). pid p < Suc nextId'"
      using "2.prems"(2) by (auto simp: less_Suc_eq)
    with "2.IH" [OF True] "2.prems"(1) True show ?thesis by simp
  next
    case False
    with "2.prems" show ?thesis by simp
  qed
qed

lemma findIndex_resolved_fresh:
  "\<forall>p \<in> set ps. pid p < n \<Longrightarrow> findIndex_resolved ps i n = (None, n + length ps)"
proof (induction ps arbitrary: i n)
  case Nil
  then show ?case by simp
next
  case (Cons p ps)
  have "\<forall>p \<in> set ps. pid p < Suc n" using Cons.prems by (auto simp: less_Suc_eq)
  from Cons.IH [OF this] Cons.prems show ?case by simp
qed

lemma fill_resolved:
  "fill run m q ip n = (q', ip', n') \<Longrightarrow> \<forall>task. \<exists>r. run task = Inr r \<Longrightarrow>
   \<forall>p \<in> set ip. \<exists>r. pvalue p = Inr r \<Longrightarrow> \<forall>p \<in> set ip'. \<exists>r. pvalue p = Inr r"
proof (induction run m q ip n rule: fill.induct)
  case (1 run maxParallel inProgress' nextId')
  then show ?case by simp
next
  case (2 run maxParallel task queue' inProgress' nextId')
  show ?case
  proof (cases "int (length inProgress') < maxParallel")
    case True
    have "\<forall>p \<in> set (inProgress' @ [\<lparr>pid = nextId', pvalue = run task\<rparr>]). \<exists>r. pvalue p = Inr r"
      using "2.prems"(2,3) by auto
    with "2.IH" [OF True] "2.prems"(1,2) True show ?thesis by simp
  next
    case False
    with "2.prems" show ?thesis by simp
  qed
qed

lemma race_member: "race sched iter ps = Some winner \<Longrightarrow> winner \<in> set ps \<and> ps \<noteq> []"
  by (auto simp: race_def split: if_splits)

text \<open>
  So the loop does not return while a task is queued or a promise is in flight.
  It can still end by throwing, when the promise that wins a race has rejected;
  it does neither when no promise rejects.
\<close>

lemma processParallel_loop_ends_only_when_idle:
  fixes run :: "'t \<Rightarrow> string + 'r TaskResult" and st :: "('t, 'r) parallel_state"
  assumes ret: "processParallel_loop run m sched iter st = Some y"
    and inv: "\<forall>p \<in> set (inProgress st). pid p < nextId st"
    and ok: "(\<exists>rs. y = Inr rs)
             \<or> (\<forall>task. \<exists>r. run task = Inr r) \<and> (\<forall>p \<in> set (inProgress st). \<exists>r. pvalue p = Inr r)"
  shows "queue st = [] \<and> inProgress st = []"
proof -
  let ?P = "\<lambda>(run :: 't \<Rightarrow> string + 'r TaskResult) (m :: int) (sched :: nat \<Rightarrow> nat) (iter :: nat)
              (st :: ('t, 'r) parallel_state) (y :: string + 'r TaskResult list).
              (\<forall>p \<in> set (inProgress st). pid p < nextId st) \<longrightarrow>
              ((\<exists>rs. y = Inr rs)
                \<or> (\<forall>task. \<exists>r. run task = Inr r)
                    \<and> (\<forall>p \<in> set (inProgress st). \<exists>r. pvalue p = Inr r)) \<longrightarrow>
              queue st = [] \<and> inProgress st = []"
  have "?P run m sched iter st y"
  proof (rule processParallel_loop.raw_induct [where P = ?P, OF _ ret])
    fix loop and run :: "'t \<Rightarrow> string + 'r TaskResult" and m sched iter
      and st :: "('t, 'r) parallel_state" and y :: "string + 'r TaskResult list"
    assume IH: "\<And>run m sched iter st y. loop run m sched iter st = Some y \<Longrightarrow> ?P run m sched iter st y"
    assume body: "(if queue st \<noteq> [] \<or> inProgress st \<noteq> []
      then case fill run m (queue st) (inProgress st) (nextId st) of
           (queue', inProgress', nextId') \<Rightarrow>
             case race sched iter inProgress' of None \<Rightarrow> None
             | Some winner \<Rightarrow>
                 case pvalue winner of Inl thrown \<Rightarrow> Some (Inl thrown)
                 | Inr result \<Rightarrow>
                     case findIndex_resolved inProgress' 0 nextId' of
                     (None, nextId'') \<Rightarrow>
                       loop run m sched (Suc iter)
                        \<lparr>collected = collected st @ [result], queue = queue',
                           inProgress = inProgress', nextId = nextId''\<rparr>
                     | (Some index, nextId'') \<Rightarrow>
                         loop run m sched (Suc iter)
                          \<lparr>collected = collected st @ [result], queue = queue',
                             inProgress = splice1 inProgress' index, nextId = nextId''\<rparr>
      else Some (Inr (collected st))) = Some y"
    show "?P run m sched iter st y"
    proof (intro impI)
      assume inv: "\<forall>p \<in> set (inProgress st). pid p < nextId st"
      assume ok: "(\<exists>rs. y = Inr rs)
                \<or> (\<forall>task. \<exists>r. run task = Inr r)
                    \<and> (\<forall>p \<in> set (inProgress st). \<exists>r. pvalue p = Inr r)"
      show "queue st = [] \<and> inProgress st = []"
      proof (rule ccontr)
        assume busy: "\<not> (queue st = [] \<and> inProgress st = [])"
        obtain q' ip' n' where f: "fill run m (queue st) (inProgress st) (nextId st) = (q', ip', n')"
          by (cases "fill run m (queue st) (inProgress st) (nextId st)") auto
        have fresh: "\<forall>p \<in> set ip'. pid p < n'" using fill_fresh [OF f inv] .
        have fi: "findIndex_resolved ip' 0 n' = (None, n' + length ip')"
          using findIndex_resolved_fresh [OF fresh] .
        show False
        proof (cases "race sched iter ip'")
          case None
          with body busy f show False by simp
        next
          case (Some winner)
          from race_member [OF Some] have mem: "winner \<in> set ip'" and ne: "ip' \<noteq> []" by simp_all
          show False
          proof (cases "pvalue winner")
            case (Inl thrown)
            have y: "y = Inl thrown" using body busy f Some Inl by simp
            with ok have all: "\<forall>task. \<exists>r. run task = Inr r"
              and ip: "\<forall>p \<in> set (inProgress st). \<exists>r. pvalue p = Inr r" by auto
            from fill_resolved [OF f all ip] mem Inl show False by auto
          next
            case (Inr result)
            let ?st = "\<lparr>collected = collected st @ [result], queue = q',
                          inProgress = ip', nextId = n' + length ip'\<rparr>"
            have next_pass: "loop run m sched (Suc iter) ?st = Some y"
              using body busy f Some Inr fi by simp
            have inv': "\<forall>p \<in> set (inProgress ?st). pid p < nextId ?st"
              using fresh by (auto simp: trans_less_add1)
            have ok': "(\<exists>rs. y = Inr rs)
                \<or> (\<forall>task. \<exists>r. run task = Inr r)
                    \<and> (\<forall>p \<in> set (inProgress ?st). \<exists>r. pvalue p = Inr r)"
            proof (cases "\<exists>rs. y = Inr rs")
              case True
              then show ?thesis by (rule disjI1)
            next
              case False
              with ok have all: "\<forall>task. \<exists>r. run task = Inr r"
                and ip: "\<forall>p \<in> set (inProgress st). \<exists>r. pvalue p = Inr r" by auto
              from fill_resolved [OF f all ip] all show ?thesis by simp
            qed
            from IH [OF next_pass] inv' ok' have "inProgress ?st = []" by blast
            with ne show False by simp
          qed
        qed
      qed
    qed
  qed
  with inv ok show ?thesis by blast
qed

lemma processParallel_returns_only_empty:
  assumes "processParallel tasks processor maxParallel' maxRetries' onError' sched = Some (Inr rs)"
  shows "tasks = []"
  using processParallel_loop_ends_only_when_idle [OF assms [unfolded processParallel_def]]
  by simp

lemma processParallel_never_returns:
  assumes ne: "tasks \<noteq> []"
    and resolves: "\<forall>task. \<exists>r. processTaskWithRetry task processor maxRetries' onError' = Inr r"
  shows "processParallel tasks processor maxParallel' maxRetries' onError' sched = None"
proof (rule ccontr)
  assume "processParallel tasks processor maxParallel' maxRetries' onError' sched \<noteq> None"
  then obtain y where
    "processParallel tasks processor maxParallel' maxRetries' onError' sched = Some y"
    by auto
  from processParallel_loop_ends_only_when_idle [OF this [unfolded processParallel_def]]
    ne resolves
  show False by simp
qed

lemma processParallel_empty:
  "processParallel [] processor maxParallel' maxRetries' onError' sched = Some (Inr [])"
  unfolding processParallel_def by (subst processParallel_loop.simps) simp

text \<open>Without an \<^verbatim>\<open>onError\<close> callback \<^verbatim>\<open>processTaskWithRetry\<close> always resolves.\<close>

lemma processTaskWithRetry_loop_resolves:
  "onError' = None \<Longrightarrow>
   \<exists>r. processTaskWithRetry_loop task processor m onError' k lastError = Inr r"
proof (induction task processor m onError' k lastError rule: processTaskWithRetry_loop.induct)
  case (1 task processor m onError' k lastError)
  show ?case
  proof (cases "int k \<le> m")
    case False
    then show ?thesis by (subst processTaskWithRetry_loop.simps) simp
  next
    case True
    show ?thesis
    proof (cases "processor task k")
      case (Inr d)
      with True show ?thesis by (subst processTaskWithRetry_loop.simps) simp
    next
      case (Inl msg)
      have c: "call_onError onError' msg task k = None"
        using "1.prems" by (simp add: call_onError_def)
      from "1.IH" [OF True Inl c "1.prems"] obtain r where
        "processTaskWithRetry_loop task processor m onError' (Suc k) (Some msg) = Inr r" ..
      with True Inl c show ?thesis by (subst processTaskWithRetry_loop.simps) simp
    qed
  qed
qed

lemma processTaskWithRetry_resolves:
  "\<exists>r. processTaskWithRetry task processor m None = Inr r"
  unfolding processTaskWithRetry_def by (rule processTaskWithRetry_loop_resolves) simp

lemma createBatches_first_batch:
  assumes "items \<noteq> []"
  shows "\<exists>batch rest. createBatches items b = Some (batch # rest) \<and> batch \<noteq> []"
proof (cases "b = 0 \<or> length items \<le> b")
  case True
  then show ?thesis using assms by (simp add: createBatches_def)
next
  case False
  then have b: "0 < b" and lt: "b < length items" by simp_all
  have pos: "0 < length items" using assms by simp
  have "createBatches_loop items b 0 [] = createBatches_loop items b b [slice items 0 b]"
    using pos by (subst createBatches_loop.simps) simp
  moreover from createBatches_loop_returns [OF b, of items b "[slice items 0 b]"]
  obtain bs where "createBatches_loop items b b [slice items 0 b] = Some ([slice items 0 b] @ bs)"
    by blast
  moreover have "slice items 0 b \<noteq> []" using assms b by (simp add: slice_def)
  ultimately show ?thesis using False by (simp add: createBatches_def)
qed

lemma processBatch_parallel_never_returns:
  assumes "tasks \<noteq> []" and "parallel options" and "onError options = None"
  shows "processBatch tasks batchSize processor options sched = None"
proof -
  from createBatches_first_batch [OF assms(1), of batchSize]
  obtain batch rest where c: "createBatches tasks batchSize = Some (batch # rest)"
    and ne: "batch \<noteq> []" by blast
  have "processParallel batch processor (maxParallel options) (maxRetries options)
          (onError options) (sched 0) = None"
    using ne unfolding assms(3)
    by (rule processParallel_never_returns) (simp add: processTaskWithRetry_resolves)
  then show ?thesis using c assms(2) by (simp add: processBatch_def)
qed

text \<open>
  C1 asks that a parallel run returns, with each item's result exactly once.
  On a list of one task whose operation succeeds at once, under the default
  options with \<open>parallel\<close> set, under any scheduler, the run does not return.
\<close>

theorem processBatch_parallel_one_task:
  "processBatch [\<lparr>task_id = ''t1'', task_name = ''Task 1''\<rparr>] 10
     (\<lambda>task k. Inr (0::nat)) (defaultBatchOptions\<lparr>parallel := True\<rparr>) sched = None"
  by (rule processBatch_parallel_never_returns) (simp_all add: defaultBatchOptions_def)

subsection \<open>Where the word \<open>skipped\<close> can occur in a failure message\<close>

lemma skipped_not_across:
  assumes k: "CHR ''k'' \<notin> set pre" and l: "pre = [] \<or> last pre \<noteq> CHR ''s''"
  shows "sublist ''skipped'' (pre @ m) \<longleftrightarrow> sublist ''skipped'' m"
proof
  assume "sublist ''skipped'' (pre @ m)"
  then consider (left) "sublist ''skipped'' pre" | (right) "sublist ''skipped'' m"
    | (across) xs1 xs2 where "''skipped'' = xs1 @ xs2" "suffix xs1 pre" "prefix xs2 m"
    unfolding sublist_append by blast
  then show "sublist ''skipped'' m"
  proof cases
    case left
    from set_mono_sublist [OF this] have "CHR ''k'' \<in> set pre" by simp
    with k show ?thesis by simp
  next
    case right
    then show ?thesis .
  next
    case across
    show ?thesis
    proof (cases xs1)
      case Nil
      with across(1,3) show ?thesis by simp
    next
      case (Cons c cs)
      with across(1) have c: "c = CHR ''s''" and rest: "''kipped'' = cs @ xs2" by simp_all
      show ?thesis
      proof (cases cs)
        case Nil
        with Cons c across(2) have "suffix [CHR ''s''] pre" by simp
        then obtain ps where "pre = ps @ [CHR ''s'']" by (auto simp: suffix_def)
        then have "pre \<noteq> []" "last pre = CHR ''s''" by simp_all
        with l show ?thesis by simp
      next
        case (Cons d ds)
        with rest have "d = CHR ''k''" by simp
        then have "CHR ''k'' \<in> set xs1" using \<open>xs1 = c # cs\<close> Cons by simp
        with set_mono_suffix [OF across(2)] k show ?thesis by blast
      qed
    qed
  qed
next
  assume "sublist ''skipped'' m"
  then show "sublist ''skipped'' (pre @ m)" unfolding sublist_append by blast
qed

lemma failure_prefix_no_k:
  "CHR ''k'' \<notin> set (''Failed after '' @ show_int n @ '' retries: '')"
proof -
  have "CHR ''k'' \<notin> insert CHR ''-'' (set decimal_digits)"
    by (simp add: decimal_digits_def)
  with set_show_int [of n] have "CHR ''k'' \<notin> set (show_int n)" by blast
  then show ?thesis by simp
qed

lemma failure_message_skipped:
  "str_includes (''Failed after '' @ show_int n @ '' retries: '' @ m) ''skipped''
     \<longleftrightarrow> str_includes m ''skipped''"
proof -
  let ?pre = "''Failed after '' @ show_int n @ '' retries: ''"
  have "last ?pre = CHR '' ''" by simp
  then have "?pre = [] \<or> last ?pre \<noteq> CHR ''s''" by simp
  from skipped_not_across [OF failure_prefix_no_k this, of m]
  show ?thesis by (simp add: str_includes_def)
qed

subsection \<open>What a task's result is\<close>

lemma processTaskWithRetry_loop_result:
  "processTaskWithRetry_loop task processor m onError' k lastError = Inr r \<Longrightarrow>
   (success r \<longleftrightarrow> (\<exists>j. k \<le> j \<and> int j \<le> m \<and> (\<exists>d. processor task j = Inr d)))
   \<and> (\<not> success r \<longrightarrow>
        error r
          = Some (''Failed after '' @ show_int m @ '' retries: ''
                  @ template_text (if int k \<le> m
                                   then (case processor task (nat m) of
                                           Inl msg \<Rightarrow> Some msg | Inr d \<Rightarrow> None)
                                   else lastError))
        \<and> (int k \<le> m \<longrightarrow> (\<exists>msg. processor task (nat m) = Inl msg)))"
proof (induction task processor m onError' k lastError rule: processTaskWithRetry_loop.induct)
  case (1 task processor m onError' k lastError)
  show ?case
  proof (cases "int k \<le> m")
    case False
    then have "processTaskWithRetry_loop task processor m onError' k lastError
        = Inr \<lparr>taskId = task_id task, taskName = Some (task_name task), success = False,
               error = Some (''Failed after '' @ show_int m @ '' retries: ''
                             @ template_text lastError),
               data = None, retryCount = k\<rparr>"
      by (subst processTaskWithRetry_loop.simps) simp
    with "1.prems" have r: "r = \<lparr>taskId = task_id task, taskName = Some (task_name task),
               success = False,
               error = Some (''Failed after '' @ show_int m @ '' retries: ''
                             @ template_text lastError),
               data = None, retryCount = k\<rparr>" by simp
    have none: "\<not> (\<exists>j. k \<le> j \<and> int j \<le> m \<and> (\<exists>d. processor task j = Inr d))"
      using False by auto
    from False none show ?thesis by (simp add: r)
  next
    case True
    show ?thesis
    proof (cases "processor task k")
      case (Inr d)
      with True have "processTaskWithRetry_loop task processor m onError' k lastError
          = Inr \<lparr>taskId = task_id task, taskName = Some (task_name task), success = True,
                 error = None, data = Some d, retryCount = k\<rparr>"
        by (subst processTaskWithRetry_loop.simps) simp
      with "1.prems" have s: "success r" by auto
      have "\<exists>j. k \<le> j \<and> int j \<le> m \<and> (\<exists>d. processor task j = Inr d)"
        using True Inr by blast
      with s show ?thesis by simp
    next
      case (Inl msg)
      show ?thesis
      proof (cases "call_onError onError' msg task k")
        case (Some thrown)
        with True Inl have "processTaskWithRetry_loop task processor m onError' k lastError
            = Inl thrown"
          by (subst processTaskWithRetry_loop.simps) simp
        with "1.prems" show ?thesis by simp
      next
        case None
        have unfold: "processTaskWithRetry_loop task processor m onError' k lastError
            = processTaskWithRetry_loop task processor m onError' (Suc k) (Some msg)"
          using True Inl None by (subst processTaskWithRetry_loop.simps) simp
        from "1.prems" [unfolded unfold]
        have "processTaskWithRetry_loop task processor m onError' (Suc k) (Some msg) = Inr r" .
        from "1.IH" [OF True Inl None this]
        have IH1: "success r
            \<longleftrightarrow> (\<exists>j. Suc k \<le> j \<and> int j \<le> m \<and> (\<exists>d. processor task j = Inr d))"
          and IH2: "\<not> success r \<longrightarrow>
            error r = Some (''Failed after '' @ show_int m @ '' retries: ''
               @ template_text (if int (Suc k) \<le> m
                                then (case processor task (nat m) of
                                        Inl msg \<Rightarrow> Some msg | Inr d \<Rightarrow> None)
                                else Some msg))
            \<and> (int (Suc k) \<le> m \<longrightarrow> (\<exists>msg. processor task (nat m) = Inl msg))"
          by blast+
        have shift: "(\<exists>j. k \<le> j \<and> int j \<le> m \<and> (\<exists>d. processor task j = Inr d))
            \<longleftrightarrow> (\<exists>j. Suc k \<le> j \<and> int j \<le> m \<and> (\<exists>d. processor task j = Inr d))"
        proof
          assume "\<exists>j. k \<le> j \<and> int j \<le> m \<and> (\<exists>d. processor task j = Inr d)"
          then obtain j d where j: "k \<le> j" "int j \<le> m" "processor task j = Inr d" by blast
          with Inl have "j \<noteq> k" by auto
          with j(1) have "Suc k \<le> j" by simp
          with j(2,3) show "\<exists>j. Suc k \<le> j \<and> int j \<le> m \<and> (\<exists>d. processor task j = Inr d)"
            by blast
        next
          assume "\<exists>j. Suc k \<le> j \<and> int j \<le> m \<and> (\<exists>d. processor task j = Inr d)"
          then obtain j d where "Suc k \<le> j" "int j \<le> m" "processor task j = Inr d" by blast
          then have "k \<le> j \<and> int j \<le> m \<and> (\<exists>d. processor task j = Inr d)" by auto
          then show "\<exists>j. k \<le> j \<and> int j \<le> m \<and> (\<exists>d. processor task j = Inr d)" ..
        qed
        have err: "\<not> success r \<longrightarrow>
            error r = Some (''Failed after '' @ show_int m @ '' retries: ''
               @ template_text (if int k \<le> m
                                then (case processor task (nat m) of
                                        Inl msg \<Rightarrow> Some msg | Inr d \<Rightarrow> None)
                                else lastError))
            \<and> (int k \<le> m \<longrightarrow> (\<exists>msg. processor task (nat m) = Inl msg))"
        proof (cases "int (Suc k) \<le> m")
          case le: True
          with IH2 True show ?thesis by simp
        next
          case False
          with True have "nat m = k" by simp
          with IH2 False Inl True show ?thesis by simp
        qed
        from IH1 shift err show ?thesis by simp
      qed
    qed
  qed
qed

lemma processTaskWithRetry_result:
  assumes "processTaskWithRetry task processor m onError' = Inr r"
  shows "success r \<longleftrightarrow> (\<exists>k. int k \<le> m \<and> (\<exists>d. processor task k = Inr d))"
    and "\<not> success r \<Longrightarrow>
         error r = Some (''Failed after '' @ show_int m @ '' retries: ''
             @ template_text (if 0 \<le> m
                              then (case processor task (nat m) of
                                      Inl msg \<Rightarrow> Some msg | Inr d \<Rightarrow> None)
                              else None))"
    and "\<not> success r \<Longrightarrow> 0 \<le> m \<Longrightarrow> \<exists>msg. processor task (nat m) = Inl msg"
  using processTaskWithRetry_loop_result [OF assms [unfolded processTaskWithRetry_def]]
  by simp_all

subsection \<open>What a batch's results are\<close>

lemma processSequential_loop_results:
  "processSequential_loop tasks processor m onError' acc = Inr rs \<Longrightarrow>
   map Inr rs = map Inr acc @ map (\<lambda>task. processTaskWithRetry task processor m onError') tasks"
proof (induction tasks arbitrary: acc)
  case Nil
  then show ?case by simp
next
  case (Cons task rest)
  show ?case
  proof (cases "processTaskWithRetry task processor m onError'")
    case (Inl thrown)
    with Cons.prems show ?thesis by simp
  next
    case (Inr result)
    with Cons.prems have "processSequential_loop rest processor m onError' (acc @ [result]) = Inr rs"
      by simp
    from Cons.IH [OF this] Inr show ?thesis by simp
  qed
qed

lemma processSequential_loop_resolves:
  "\<forall>task. \<exists>r. processTaskWithRetry task processor m onError' = Inr r \<Longrightarrow>
   \<exists>rs. processSequential_loop tasks processor m onError' acc = Inr rs"
proof (induction tasks arbitrary: acc)
  case Nil
  show ?case by simp
next
  case (Cons task rest)
  from Cons.prems obtain r where r: "processTaskWithRetry task processor m onError' = Inr r"
    by blast
  from Cons.IH [OF Cons.prems, of "acc @ [r]"] r show ?case by simp
qed

text \<open>
  The results a batch hands to the counting loop are the results of its tasks,
  in order (a parallel batch hands over results only when it is empty).
\<close>

lemma batch_results:
  assumes "(if parallel options
            then processParallel batch processor (maxParallel options) (maxRetries options)
                   (onError options) s
            else Some (processSequential batch processor (maxRetries options) (onError options)))
           = Some (Inr rs)"
  shows "map Inr rs
         = map (\<lambda>task. processTaskWithRetry task processor (maxRetries options) (onError options))
             batch"
proof (cases "parallel options")
  case False
  with assms have "processSequential_loop batch processor (maxRetries options) (onError options) []
      = Inr rs"
    by (simp add: processSequential_def)
  from processSequential_loop_results [OF this] show ?thesis by simp
next
  case True
  with assms have ret:
    "processParallel batch processor (maxParallel options) (maxRetries options) (onError options) s
       = Some (Inr rs)"
    by simp
  from processParallel_returns_only_empty [OF ret] have "batch = []" .
  with ret show ?thesis by (simp add: processParallel_empty)
qed

lemma batch_never_throws_without_onError:
  assumes "(if parallel options
            then processParallel batch processor (maxParallel options) (maxRetries options)
                   (onError options) s
            else Some (processSequential batch processor (maxRetries options) (onError options)))
           = Some y"
    and "onError options = None"
  shows "\<exists>rs. y = Inr rs"
proof (cases "parallel options")
  case False
  from processSequential_loop_resolves [of processor "maxRetries options" None batch "[]"]
    processTaskWithRetry_resolves
  obtain rs where "processSequential_loop batch processor (maxRetries options) None [] = Inr rs"
    by blast
  with False assms show ?thesis by (auto simp: processSequential_def)
next
  case True
  with assms have ret:
    "processParallel batch processor (maxParallel options) (maxRetries options) None s = Some y"
    by simp
  have "batch = []"
  proof (rule ccontr)
    assume ne: "batch \<noteq> []"
    have resolves:
      "\<forall>task. \<exists>r. processTaskWithRetry task processor (maxRetries options) None = Inr r"
      by (simp add: processTaskWithRetry_resolves)
    from processParallel_never_returns [OF ne resolves, of "maxParallel options" s] ret
    show False by simp
  qed
  with ret show ?thesis by (auto simp: processParallel_empty)
qed

subsection \<open>The aggregate counts\<close>

lemma countResults_eq:
  "countResults rs (s, f, k) =
     (s + length (filter success rs),
      f + length (filter (\<lambda>r. \<not> success r \<and> \<not> opt_includes (error r) ''skipped'') rs),
      k + length (filter (\<lambda>r. \<not> success r \<and> opt_includes (error r) ''skipped'') rs))"
  by (induction rs arbitrary: s f k) simp_all

text \<open>
  One pass of the batch loop, in its three outcomes: the processing of the batch
  throws; it returns and \<^verbatim>\<open>onProgress\<close> throws; it returns and nothing throws.
\<close>

lemma processBatch_loop_batch_throws:
  assumes "(if parallel options
            then processParallel batch processor (maxParallel options) (maxRetries options)
                   (onError options) (sched index)
            else Some (processSequential batch processor (maxRetries options) (onError options)))
           = Some (Inl thrown)"
  shows "processBatch_loop tasks b processor options sched index (batch # rest) acc
         = processBatch_loop tasks b processor options sched (Suc index) rest
             (batch_failed index batch thrown acc)"
  by (simp only: processBatch_loop.simps assms option.case sum.case)

lemma processBatch_loop_onProgress_throws:
  assumes "(if parallel options
            then processParallel batch processor (maxParallel options) (maxRetries options)
                   (onError options) (sched index)
            else Some (processSequential batch processor (maxRetries options) (onError options)))
           = Some (Inr rs)"
    and "call_onProgress (onProgress options)
           (min ((index + 1) * (if b = 0 then length tasks else b)) (length tasks)) (length tasks)
         = Some thrown"
  shows "processBatch_loop tasks b processor options sched index (batch # rest) acc
         = processBatch_loop tasks b processor options sched (Suc index) rest
             (batch_failed index batch thrown
                \<lparr>successful = successful acc + length (filter success rs),
                 failed = failed acc
                   + length (filter (\<lambda>r. \<not> success r \<and> \<not> opt_includes (error r) ''skipped'') rs),
                 skipped = skipped acc
                   + length (filter (\<lambda>r. \<not> success r \<and> opt_includes (error r) ''skipped'') rs),
                 results = results acc @ rs,
                 progress = progress acc
                   @ [(min ((index + 1) * (if b = 0 then length tasks else b)) (length tasks),
                       length tasks)],
                 waits = waits acc, batch_errors = batch_errors acc\<rparr>)"
  by (simp only: processBatch_loop.simps assms option.case sum.case countResults_eq prod.case)

lemma processBatch_loop_batch_counted:
  assumes "(if parallel options
            then processParallel batch processor (maxParallel options) (maxRetries options)
                   (onError options) (sched index)
            else Some (processSequential batch processor (maxRetries options) (onError options)))
           = Some (Inr rs)"
    and "call_onProgress (onProgress options)
           (min ((index + 1) * (if b = 0 then length tasks else b)) (length tasks)) (length tasks)
         = None"
  shows "processBatch_loop tasks b processor options sched index (batch # rest) acc
         = processBatch_loop tasks b processor options sched (Suc index) rest
             \<lparr>successful = successful acc + length (filter success rs),
              failed = failed acc
                + length (filter (\<lambda>r. \<not> success r \<and> \<not> opt_includes (error r) ''skipped'') rs),
              skipped = skipped acc
                + length (filter (\<lambda>r. \<not> success r \<and> opt_includes (error r) ''skipped'') rs),
              results = results acc @ rs,
              progress = progress acc
                @ [(min ((index + 1) * (if b = 0 then length tasks else b)) (length tasks),
                    length tasks)],
              waits = (if rest \<noteq> [] \<and> 0 < delayBetweenBatches options
                       then waits acc @ [delayBetweenBatches options] else waits acc),
              batch_errors = batch_errors acc\<rparr>"
  by (simp only: processBatch_loop.simps assms option.case sum.case countResults_eq prod.case)

lemma batch_results_members:
  fixes rs :: "'r TaskResult list"
  assumes "map Inr rs = map (\<lambda>task. processTaskWithRetry task processor m onError') batch"
    and "r \<in> set rs"
  shows "\<exists>task \<in> set batch. processTaskWithRetry task processor m onError' = Inr r"
proof -
  from assms(2) obtain i where i: "i < length rs" and ri: "rs ! i = r"
    by (auto simp: in_set_conv_nth)
  have "length (map (Inr :: 'r TaskResult \<Rightarrow> string + 'r TaskResult) rs)
      = length (map (\<lambda>task. processTaskWithRetry task processor m onError') batch)"
    by (simp only: assms(1))
  then have len: "length rs = length batch" by simp
  have "map (Inr :: 'r TaskResult \<Rightarrow> string + 'r TaskResult) rs ! i = map (\<lambda>task. processTaskWithRetry task processor m onError') batch ! i"
    by (simp only: assms(1))
  with i len ri have eq: "processTaskWithRetry (batch ! i) processor m onError' = Inr r"
    by simp
  from i len have "batch ! i \<in> set batch" by simp
  with eq show ?thesis by blast
qed

lemma results_members_Cons:
  assumes "\<forall>r \<in> set rs. \<exists>task \<in> set batch. P task r"
    and "\<forall>r \<in> set new. \<exists>task \<in> set (concat rest). P task r"
  shows "\<forall>r \<in> set (rs @ new). \<exists>task \<in> set (concat (batch # rest)). P task r"
proof
  fix r assume "r \<in> set (rs @ new)"
  then consider (here) "r \<in> set rs" | (later) "r \<in> set new" by auto
  then show "\<exists>task \<in> set (concat (batch # rest)). P task r"
  proof cases
    case here
    with assms(1) obtain task where "task \<in> set batch" and p: "P task r" by blast
    then have "task \<in> set (concat (batch # rest))" by simp
    with p show ?thesis by blast
  next
    case later
    with assms(2) obtain task where "task \<in> set (concat rest)" and p: "P task r" by blast
    then have "task \<in> set (concat (batch # rest))" by simp
    with p show ?thesis by blast
  qed
qed


text \<open>
  The loop from batch \<open>index\<close> on: what it adds to the results and to the three
  counters. \<open>pre\<close> stands for the batches before \<open>index\<close>.
\<close>

lemma processBatch_loop_counts:
  fixes processor :: "('t BatchTask_scheme, 'r) processor"
  assumes "processBatch_loop tasks b processor options sched index batches acc = Some res"
    and "length pre = index"
  shows "\<exists>new log.
           results res = results acc @ new
         \<and> batch_errors res = batch_errors acc @ log
         \<and> successful res = successful acc + length (filter success new)
         \<and> skipped res = skipped acc
             + length (filter (\<lambda>r. \<not> success r \<and> opt_includes (error r) ''skipped'') new)
         \<and> failed res = failed acc
             + length (filter (\<lambda>r. \<not> success r \<and> \<not> opt_includes (error r) ''skipped'') new)
             + sum_list (map (\<lambda>i. length ((pre @ batches) ! i)) (map fst log))
         \<and> (\<forall>r \<in> set new. \<exists>task \<in> set (concat batches).
               processTaskWithRetry task processor (maxRetries options) (onError options) = Inr r)"
  using assms
proof (induction batches arbitrary: index acc pre)
  case Nil
  then have "res = acc" by simp
  then have "results res = results acc @ [] \<and> batch_errors res = batch_errors acc @ []
         \<and> successful res = successful acc + length (filter success [])
         \<and> skipped res = skipped acc
             + length (filter (\<lambda>r. \<not> success r \<and> opt_includes (error r) ''skipped'') [])
         \<and> failed res = failed acc
             + length (filter (\<lambda>r. \<not> success r \<and> \<not> opt_includes (error r) ''skipped'') [])
             + sum_list (map (\<lambda>i. length ((pre @ []) ! i)) (map fst []))
         \<and> (\<forall>r \<in> set []. \<exists>task \<in> set (concat []).
               processTaskWithRetry task processor (maxRetries options) (onError options) = Inr r)"
    by simp
  then show ?case by blast
next
  case (Cons batch rest)
  let ?run = "if parallel options
            then processParallel batch processor (maxParallel options) (maxRetries options)
                   (onError options) (sched index)
            else Some (processSequential batch processor (maxRetries options) (onError options))"
  let ?sk = "\<lambda>r :: 'r TaskResult. \<not> success r \<and> opt_includes (error r) ''skipped''"
  let ?fc = "\<lambda>r :: 'r TaskResult. \<not> success r \<and> \<not> opt_includes (error r) ''skipped''"
  have pre': "length (pre @ [batch]) = Suc index" using Cons.prems(2) by simp
  have same: "(pre @ [batch]) @ rest = pre @ batch # rest" by simp
  have here: "(pre @ batch # rest) ! index = batch"
    using Cons.prems(2) by (simp add: nth_append)
  obtain y where y: "?run = Some y"
    using Cons.prems(1) by (cases ?run) simp_all
  show ?case
  proof (cases y)
    case (Inl thrown)
    with y have run: "?run = Some (Inl thrown)" by simp
    from Cons.prems(1) [unfolded processBatch_loop_batch_throws [where sched = sched and index = index, OF run]]
    have "processBatch_loop tasks b processor options sched (Suc index) rest
            (batch_failed index batch thrown acc) = Some res" .
    from Cons.IH [OF this pre', unfolded same]
    obtain new log where
      1: "results res = results (batch_failed index batch thrown acc) @ new"
      and 2: "batch_errors res = batch_errors (batch_failed index batch thrown acc) @ log"
      and 3: "successful res = successful (batch_failed index batch thrown acc)
                + length (filter success new)"
      and 4: "skipped res = skipped (batch_failed index batch thrown acc) + length (filter ?sk new)"
      and 5: "failed res = failed (batch_failed index batch thrown acc) + length (filter ?fc new)
                + sum_list (map (\<lambda>i. length ((pre @ batch # rest) ! i)) (map fst log))"
      and 6: "\<forall>r \<in> set new. \<exists>task \<in> set (concat rest).
               processTaskWithRetry task processor (maxRetries options) (onError options) = Inr r"
      by blast
    have a: "results res = results acc @ new" using 1 by (simp add: batch_failed_def)
    have b: "batch_errors res = batch_errors acc @ ((index, thrown) # log)"
      using 2 by (simp add: batch_failed_def)
    have c: "successful res = successful acc + length (filter success new)"
      using 3 by (simp add: batch_failed_def)
    have d: "skipped res = skipped acc + length (filter ?sk new)"
      using 4 by (simp add: batch_failed_def)
    have e: "failed res = failed acc + length (filter ?fc new)
        + sum_list (map (\<lambda>i. length ((pre @ batch # rest) ! i)) (map fst ((index, thrown) # log)))"
      using 5 here by (simp add: batch_failed_def)
    have "\<forall>r \<in> set ([] @ new). \<exists>task \<in> set (concat (batch # rest)).
               processTaskWithRetry task processor (maxRetries options) (onError options) = Inr r"
      by (rule results_members_Cons [OF _ 6]) simp
    then have f: "\<forall>r \<in> set new. \<exists>task \<in> set (concat (batch # rest)).
               processTaskWithRetry task processor (maxRetries options) (onError options) = Inr r"
      by simp
    from a b c d e f show ?thesis by blast
  next
    case (Inr rs)
    with y have run: "?run = Some (Inr rs)" by simp
    from batch_results [OF run]
    have rs: "map Inr rs
        = map (\<lambda>task. processTaskWithRetry task processor (maxRetries options) (onError options))
            batch" .
    have mem: "\<forall>r \<in> set rs. \<exists>task \<in> set batch.
        processTaskWithRetry task processor (maxRetries options) (onError options) = Inr r"
      using batch_results_members [OF rs] by blast
    let ?counted = "\<lparr>successful = successful acc + length (filter success rs),
                 failed = failed acc + length (filter ?fc rs),
                 skipped = skipped acc + length (filter ?sk rs),
                 results = results acc @ rs,
                 progress = progress acc
                   @ [(min ((index + 1) * (if b = 0 then length tasks else b)) (length tasks),
                       length tasks)],
                 waits = waits acc, batch_errors = batch_errors acc\<rparr>"
    show ?thesis
    proof (cases "call_onProgress (onProgress options)
           (min ((index + 1) * (if b = 0 then length tasks else b)) (length tasks)) (length tasks)")
      case (Some thrown)
      from Cons.prems(1) [unfolded processBatch_loop_onProgress_throws [where sched = sched and index = index, OF run Some]]
      have "processBatch_loop tasks b processor options sched (Suc index) rest
              (batch_failed index batch thrown ?counted) = Some res" .
      from Cons.IH [OF this pre', unfolded same]
      obtain new log where
        1: "results res = results (batch_failed index batch thrown ?counted) @ new"
        and 2: "batch_errors res = batch_errors (batch_failed index batch thrown ?counted) @ log"
        and 3: "successful res = successful (batch_failed index batch thrown ?counted)
                  + length (filter success new)"
        and 4: "skipped res = skipped (batch_failed index batch thrown ?counted)
                  + length (filter ?sk new)"
        and 5: "failed res = failed (batch_failed index batch thrown ?counted)
                  + length (filter ?fc new)
                  + sum_list (map (\<lambda>i. length ((pre @ batch # rest) ! i)) (map fst log))"
        and 6: "\<forall>r \<in> set new. \<exists>task \<in> set (concat rest).
                 processTaskWithRetry task processor (maxRetries options) (onError options) = Inr r"
        by blast
      have a: "results res = results acc @ (rs @ new)" using 1 by (simp add: batch_failed_def)
      have b: "batch_errors res = batch_errors acc @ ((index, thrown) # log)"
        using 2 by (simp add: batch_failed_def)
      have c: "successful res = successful acc + length (filter success (rs @ new))"
        using 3 by (simp add: batch_failed_def)
      have d: "skipped res = skipped acc + length (filter ?sk (rs @ new))"
        using 4 by (simp add: batch_failed_def)
      have e: "failed res = failed acc + length (filter ?fc (rs @ new))
          + sum_list (map (\<lambda>i. length ((pre @ batch # rest) ! i)) (map fst ((index, thrown) # log)))"
        using 5 here by (simp add: batch_failed_def)
      have f: "\<forall>r \<in> set (rs @ new). \<exists>task \<in> set (concat (batch # rest)).
                 processTaskWithRetry task processor (maxRetries options) (onError options) = Inr r"
        by (rule results_members_Cons [OF mem 6])
      from a b c d e f show ?thesis by blast
    next
      case None
      let ?next = "\<lparr>successful = successful acc + length (filter success rs),
              failed = failed acc + length (filter ?fc rs),
              skipped = skipped acc + length (filter ?sk rs),
              results = results acc @ rs,
              progress = progress acc
                @ [(min ((index + 1) * (if b = 0 then length tasks else b)) (length tasks),
                    length tasks)],
              waits = (if rest \<noteq> [] \<and> 0 < delayBetweenBatches options
                       then waits acc @ [delayBetweenBatches options] else waits acc),
              batch_errors = batch_errors acc\<rparr>"
      from Cons.prems(1) [unfolded processBatch_loop_batch_counted [where sched = sched and index = index, OF run None]]
      have "processBatch_loop tasks b processor options sched (Suc index) rest ?next = Some res" .
      from Cons.IH [OF this pre', unfolded same]
      obtain new log where
        1: "results res = results ?next @ new"
        and 2: "batch_errors res = batch_errors ?next @ log"
        and 3: "successful res = successful ?next + length (filter success new)"
        and 4: "skipped res = skipped ?next + length (filter ?sk new)"
        and 5: "failed res = failed ?next + length (filter ?fc new)
                  + sum_list (map (\<lambda>i. length ((pre @ batch # rest) ! i)) (map fst log))"
        and 6: "\<forall>r \<in> set new. \<exists>task \<in> set (concat rest).
                 processTaskWithRetry task processor (maxRetries options) (onError options) = Inr r"
        by blast
      have a: "results res = results acc @ (rs @ new)" using 1 by simp
      have b: "batch_errors res = batch_errors acc @ log" using 2 by simp
      have c: "successful res = successful acc + length (filter success (rs @ new))"
        using 3 by simp
      have d: "skipped res = skipped acc + length (filter ?sk (rs @ new))" using 4 by simp
      have e: "failed res = failed acc + length (filter ?fc (rs @ new))
          + sum_list (map (\<lambda>i. length ((pre @ batch # rest) ! i)) (map fst log))"
        using 5 by simp
      have f: "\<forall>r \<in> set (rs @ new). \<exists>task \<in> set (concat (batch # rest)).
                 processTaskWithRetry task processor (maxRetries options) (onError options) = Inr r"
        by (rule results_members_Cons [OF mem 6])
      from a b c d e f show ?thesis by blast
    qed
  qed
qed

text \<open>Without callbacks no batch is caught, and every task has its result.\<close>

lemma processBatch_loop_no_callbacks:
  assumes "processBatch_loop tasks b processor options sched index batches acc = Some res"
    and "onError options = None" and "onProgress options = None"
  shows "batch_errors res = batch_errors acc
       \<and> map Inr (results res)
           = map Inr (results acc)
             @ map (\<lambda>task. processTaskWithRetry task processor (maxRetries options) None)
                 (concat batches)"
  using assms(1)
proof (induction batches arbitrary: index acc)
  case Nil
  then show ?case by simp
next
  case (Cons batch rest)
  let ?run = "if parallel options
            then processParallel batch processor (maxParallel options) (maxRetries options)
                   (onError options) (sched index)
            else Some (processSequential batch processor (maxRetries options) (onError options))"
  obtain y where y: "?run = Some y"
    using Cons.prems(1) by (cases ?run) simp_all
  from batch_never_throws_without_onError [OF y assms(2)]
  obtain rs where run: "?run = Some (Inr rs)" using y by blast
  from batch_results [OF run] assms(2)
  have rs: "map Inr rs
      = map (\<lambda>task. processTaskWithRetry task processor (maxRetries options) None) batch"
    by simp
  have quiet: "call_onProgress (onProgress options)
           (min ((index + 1) * (if b = 0 then length tasks else b)) (length tasks)) (length tasks)
         = None"
    using assms(3) by (simp add: call_onProgress_def)
  from Cons.prems(1) [unfolded processBatch_loop_batch_counted [where sched = sched and index = index, OF run quiet]]
  have "processBatch_loop tasks b processor options sched (Suc index) rest
      \<lparr>successful = successful acc + length (filter success rs),
       failed = failed acc
         + length (filter (\<lambda>r. \<not> success r \<and> \<not> opt_includes (error r) ''skipped'') rs),
       skipped = skipped acc
         + length (filter (\<lambda>r. \<not> success r \<and> opt_includes (error r) ''skipped'') rs),
       results = results acc @ rs,
       progress = progress acc
         @ [(min ((index + 1) * (if b = 0 then length tasks else b)) (length tasks),
             length tasks)],
       waits = (if rest \<noteq> [] \<and> 0 < delayBetweenBatches options
                then waits acc @ [delayBetweenBatches options] else waits acc),
       batch_errors = batch_errors acc\<rparr> = Some res" .
  from Cons.IH [OF this] rs show ?case by simp
qed

lemma processBatch_loop_sequential_returns:
  "\<not> parallel options \<Longrightarrow>
   \<exists>res. processBatch_loop tasks b processor options sched index batches acc = Some res"
proof (induction batches arbitrary: index acc)
  case Nil
  then show ?case by simp
next
  case (Cons batch rest)
  let ?run = "if parallel options
            then processParallel batch processor (maxParallel options) (maxRetries options)
                   (onError options) (sched index)
            else Some (processSequential batch processor (maxRetries options) (onError options))"
  show ?case
  proof (cases "processSequential batch processor (maxRetries options) (onError options)")
    case (Inl thrown)
    with Cons.prems have run: "?run = Some (Inl thrown)" by simp
    from Cons.IH [OF Cons.prems, of "Suc index" "batch_failed index batch thrown acc"]
    show ?thesis unfolding processBatch_loop_batch_throws [where sched = sched and index = index, OF run] .
  next
    case (Inr rs)
    with Cons.prems have run: "?run = Some (Inr rs)" by simp
    show ?thesis
    proof (cases "call_onProgress (onProgress options)
           (min ((index + 1) * (if b = 0 then length tasks else b)) (length tasks)) (length tasks)")
      case (Some thrown)
      show ?thesis
        unfolding processBatch_loop_onProgress_throws [where sched = sched and index = index, OF run Some]
        by (rule Cons.IH [OF Cons.prems])
    next
      case None
      show ?thesis
        unfolding processBatch_loop_batch_counted [where sched = sched and index = index, OF run None]
        by (rule Cons.IH [OF Cons.prems])
    qed
  qed
qed

lemma createBatches_returns:
  "\<exists>bs. createBatches items b = Some bs \<and> concat bs = items"
proof (cases "b = 0 \<or> length items \<le> b")
  case True
  then show ?thesis by (simp add: createBatches_def)
next
  case False
  then have "0 < b" by simp
  from createBatches_loop_returns [OF this, of items 0 "[]"]
  obtain bs where "createBatches_loop items b 0 [] = Some bs" "concat bs = items" by auto
  with False show ?thesis by (simp add: createBatches_def)
qed

text \<open>
  C10. A sequential run of \<open>processBatch\<close> returns, whatever the callbacks do.
  Whenever \<open>processBatch\<close> returns: \<open>successful\<close> is the number of results whose
  success flag is true, \<open>skipped\<close> the number of results whose success flag is
  false and whose error string contains \<open>skipped\<close>, and \<open>failed\<close> the number of the
  other results whose success flag is false, plus, for every batch that ended in
  the \<^verbatim>\<open>catch\<close> branch (because \<^verbatim>\<open>onError\<close> or \<^verbatim>\<open>onProgress\<close> threw), the length of
  that batch. Every result is the result \<open>processTaskWithRetry\<close> resolved with for
  one of the tasks; without callbacks no batch is caught and the results are
  those of all tasks, in order.
  A result of \<open>processTaskWithRetry\<close> has its success flag true exactly when one
  of the attempts \<open>0, \<dots>, maxRetries\<close> succeeds. Otherwise its error string is
  \<open>Failed after N retries: msg\<close>, where \<open>msg\<close> is the message thrown by the last
  attempt (attempt number \<open>maxRetries\<close>), and that string contains \<open>skipped\<close>
  exactly when \<open>msg\<close> does.
\<close>

theorem processBatch_counts:
  "(\<not> parallel options \<longrightarrow>
      (\<exists>res. processBatch tasks batchSize (processor :: ('t BatchTask_scheme, 'r) processor)
               options sched = Some res))
   \<and> (processBatch tasks batchSize processor options sched = Some res
        \<and> createBatches tasks batchSize = Some batches \<longrightarrow>
        successful res = length (filter success (results res))
      \<and> skipped res
          = length (filter (\<lambda>r. \<not> success r \<and> opt_includes (error r) ''skipped'') (results res))
      \<and> failed res
          = length (filter (\<lambda>r. \<not> success r \<and> \<not> opt_includes (error r) ''skipped'') (results res))
            + sum_list (map (\<lambda>i. length (batches ! i)) (map fst (batch_errors res)))
      \<and> (\<forall>r \<in> set (results res). \<exists>task \<in> set tasks.
            processTaskWithRetry task processor (maxRetries options) (onError options) = Inr r)
      \<and> (onError options = None \<and> onProgress options = None \<longrightarrow>
            batch_errors res = []
          \<and> map Inr (results res)
              = map (\<lambda>task. processTaskWithRetry task processor (maxRetries options) None) tasks))
   \<and> (processTaskWithRetry task processor m onError' = Inr r \<longrightarrow>
        (success r \<longleftrightarrow> (\<exists>k. int k \<le> m \<and> (\<exists>d. processor task k = Inr d)))
      \<and> (\<not> success r \<longrightarrow>
           (\<exists>msg. error r = Some (''Failed after '' @ show_int m @ '' retries: '' @ msg)
                \<and> (0 \<le> m \<longrightarrow> processor task (nat m) = Inl msg)
                \<and> (m < 0 \<longrightarrow> msg = ''undefined'')
                \<and> (opt_includes (error r) ''skipped'' \<longleftrightarrow> str_includes msg ''skipped''))))"
proof (intro conjI impI)
  assume seq: "\<not> parallel options"
  from createBatches_returns [of tasks batchSize]
  obtain bs where bs: "createBatches tasks batchSize = Some bs" by blast
  from processBatch_loop_sequential_returns [OF seq]
  show "\<exists>res. processBatch tasks batchSize processor options sched = Some res"
    by (simp add: processBatch_def bs)
next
  assume h: "processBatch tasks batchSize processor options sched = Some res
        \<and> createBatches tasks batchSize = Some batches"
  then have ret: "processBatch tasks batchSize processor options sched = Some res"
    and bs: "createBatches tasks batchSize = Some batches" by simp_all
  from createBatches_returns [of tasks batchSize] bs
  have cc: "concat batches = tasks" by auto
  let ?zero = "\<lparr>successful = 0, failed = 0, skipped = 0, results = [],
                 progress = [], waits = [], batch_errors = []\<rparr> :: 'r BatchResult"
  from ret have loop:
    "processBatch_loop tasks batchSize processor options sched 0 batches ?zero = Some res"
    by (simp add: processBatch_def bs)
  have "length ([] :: 't BatchTask_scheme list list) = 0" by simp
  from processBatch_loop_counts [OF loop this]
  obtain new log where r: "results res = new" and l: "batch_errors res = log"
    and s: "successful res = length (filter success new)"
    and k: "skipped res
        = length (filter (\<lambda>r. \<not> success r \<and> opt_includes (error r) ''skipped'') new)"
    and f: "failed res
        = length (filter (\<lambda>r. \<not> success r \<and> \<not> opt_includes (error r) ''skipped'') new)
          + sum_list (map (\<lambda>i. length (batches ! i)) (map fst log))"
    and m: "\<forall>r \<in> set new. \<exists>task \<in> set (concat batches).
               processTaskWithRetry task processor (maxRetries options) (onError options) = Inr r"
    by auto
  show "successful res = length (filter success (results res))" by (simp only: r s)
  show "skipped res
      = length (filter (\<lambda>r. \<not> success r \<and> opt_includes (error r) ''skipped'') (results res))"
    by (simp only: r k)
  show "failed res
      = length (filter (\<lambda>r. \<not> success r \<and> \<not> opt_includes (error r) ''skipped'') (results res))
        + sum_list (map (\<lambda>i. length (batches ! i)) (map fst (batch_errors res)))"
    by (simp only: r l f)
  show "\<forall>r \<in> set (results res). \<exists>task \<in> set tasks.
            processTaskWithRetry task processor (maxRetries options) (onError options) = Inr r"
    using m by (simp only: r cc)
  assume "onError options = None \<and> onProgress options = None"
  then have none: "onError options = None" "onProgress options = None" by simp_all
  from processBatch_loop_no_callbacks [OF loop none]
  show "batch_errors res = []" by simp
  from processBatch_loop_no_callbacks [OF loop none]
  show "map Inr (results res)
      = map (\<lambda>task. processTaskWithRetry task processor (maxRetries options) None) tasks"
    by (simp add: cc)
next
  assume res: "processTaskWithRetry task processor m onError' = Inr r"
  from processTaskWithRetry_result(1) [OF res]
  show "success r \<longleftrightarrow> (\<exists>k. int k \<le> m \<and> (\<exists>d. processor task k = Inr d))" .
  assume fail: "\<not> success r"
  let ?last = "if 0 \<le> m
               then (case processor task (nat m) of Inl msg \<Rightarrow> Some msg | Inr d \<Rightarrow> None)
               else None"
  from processTaskWithRetry_result(2) [OF res fail]
  have e: "error r = Some (''Failed after '' @ show_int m @ '' retries: '' @ template_text ?last)" .
  have l: "0 \<le> m \<longrightarrow> (\<exists>msg. processor task (nat m) = Inl msg)"
    using processTaskWithRetry_result(3) [OF res fail] by blast
  have 1: "0 \<le> m \<longrightarrow> processor task (nat m) = Inl (template_text ?last)"
    using l by (auto simp: template_text_def)
  have 2: "m < 0 \<longrightarrow> template_text ?last = ''undefined''"
    by (simp add: template_text_def)
  have 3: "opt_includes (error r) ''skipped'' \<longleftrightarrow> str_includes (template_text ?last) ''skipped''"
    unfolding e by (simp only: opt_includes_def option.case failure_message_skipped)
  show "\<exists>msg. error r = Some (''Failed after '' @ show_int m @ '' retries: '' @ msg)
                \<and> (0 \<le> m \<longrightarrow> processor task (nat m) = Inl msg)
                \<and> (m < 0 \<longrightarrow> msg = ''undefined'')
                \<and> (opt_includes (error r) ''skipped'' \<longleftrightarrow> str_includes msg ''skipped'')"
    using e 1 2 3 by blast
qed

theorem processBatch_counts_witness:
  "(\<exists>res. processBatch
       [\<lparr>task_id = ''a'', task_name = ''A''\<rparr>, \<lparr>task_id = ''b'', task_name = ''B''\<rparr>,
        \<lparr>task_id = ''c'', task_name = ''C''\<rparr>] 2
       (\<lambda>task k. if task_id task = ''a'' then Inl ''File skipped: already there''
                 else if task_id task = ''b'' then Inl ''network down'' else Inr (1::nat))
       (defaultBatchOptions\<lparr>maxRetries := 1\<rparr>) (\<lambda>index iter. 0) = Some res
     \<and> successful res = 1 \<and> skipped res = 1 \<and> failed res = 1 \<and> batch_errors res = []
     \<and> map error (results res)
         = [Some ''Failed after 1 retries: File skipped: already there'',
            Some ''Failed after 1 retries: network down'', None])
   \<and> (\<exists>res. processBatch
       [\<lparr>task_id = ''a'', task_name = ''A''\<rparr>, \<lparr>task_id = ''b'', task_name = ''B''\<rparr>,
        \<lparr>task_id = ''c'', task_name = ''C''\<rparr>] 2
       (\<lambda>task k. if task_id task = ''a'' then Inl ''File skipped: already there''
                 else if task_id task = ''b'' then Inl ''network down'' else Inr (1::nat))
       (defaultBatchOptions
          \<lparr>maxRetries := 1,
           onProgress := Some (\<lambda>processed totalTasks.
                                 if processed = 2 then Some ''progress bar gone'' else None)\<rparr>)
       (\<lambda>index iter. 0) = Some res
     \<and> successful res = 1 \<and> skipped res = 1 \<and> failed res = 3
     \<and> batch_errors res = [(0, ''progress bar gone'')]
     \<and> map error (results res)
         = [Some ''Failed after 1 retries: File skipped: already there'',
            Some ''Failed after 1 retries: network down'', None])
   \<and> str_includes ''File skipped: already there'' ''skipped''"
proof -
  let ?a = "\<lparr>task_id = ''a'', task_name = ''A''\<rparr>"
  let ?b = "\<lparr>task_id = ''b'', task_name = ''B''\<rparr>"
  let ?c = "\<lparr>task_id = ''c'', task_name = ''C''\<rparr>"
  let ?p = "\<lambda>(task :: BatchTask) (k :: nat).
              if task_id task = ''a'' then Inl ''File skipped: already there''
              else if task_id task = ''b'' then Inl ''network down'' else Inr (1::nat)"
  let ?o = "defaultBatchOptions\<lparr>maxRetries := 1\<rparr> :: BatchTask BatchOptions"
  let ?o' = "defaultBatchOptions
          \<lparr>maxRetries := 1,
           onProgress := Some (\<lambda>processed totalTasks.
                                 if processed = 2 then Some ''progress bar gone'' else None)\<rparr>
          :: BatchTask BatchOptions"
  let ?s = "\<lambda>(index :: nat) (iter :: nat). 0 :: nat"
  let ?ra = "\<lparr>taskId = ''a'', taskName = Some ''A'', success = False,
              error = Some ''Failed after 1 retries: File skipped: already there'',
              data = None :: nat option, retryCount = 2\<rparr>"
  let ?rb = "\<lparr>taskId = ''b'', taskName = Some ''B'', success = False,
              error = Some ''Failed after 1 retries: network down'',
              data = None :: nat option, retryCount = 2\<rparr>"
  let ?rc = "\<lparr>taskId = ''c'', taskName = Some ''C'', success = True, error = None,
              data = Some (1::nat), retryCount = 0\<rparr>"
  have seq: "\<not> parallel ?o" and m: "maxRetries ?o = 1"
    and quiet: "onError ?o = None \<and> onProgress ?o = None"
    by (simp_all add: defaultBatchOptions_def)
  have seq': "\<not> parallel ?o'" by (simp add: defaultBatchOptions_def)
  have batches: "createBatches [?a, ?b, ?c] 2 = Some [[?a, ?b], [?c]]" by code_simp
  have ra: "processTaskWithRetry ?a ?p 1 None = Inr ?ra" by code_simp
  have rb: "processTaskWithRetry ?b ?p 1 None = Inr ?rb" by code_simp
  have rc: "processTaskWithRetry ?c ?p 1 None = Inr ?rc" by code_simp
  have ia: "opt_includes (Some ''Failed after 1 retries: File skipped: already there'') ''skipped''"
    by code_simp
  have ib: "\<not> opt_includes (Some ''Failed after 1 retries: network down'') ''skipped''"
    by code_simp
  have f1: "filter success [?ra, ?rb, ?rc] = [?rc]" by simp
  have f2: "filter (\<lambda>r. \<not> success r \<and> opt_includes (error r) ''skipped'') [?ra, ?rb, ?rc] = [?ra]"
    using ia ib by simp
  have f3: "filter (\<lambda>r. \<not> success r \<and> \<not> opt_includes (error r) ''skipped'') [?ra, ?rb, ?rc] = [?rb]"
    using ia ib by simp

  from processBatch_counts [where options = ?o and tasks = "[?a, ?b, ?c]" and batchSize = 2
      and processor = ?p and sched = ?s, THEN conjunct1, rule_format, OF seq]
  obtain res where res: "processBatch [?a, ?b, ?c] 2 ?p ?o ?s = Some res" ..
  note t = processBatch_counts [where options = ?o and tasks = "[?a, ?b, ?c]" and batchSize = 2
      and processor = ?p and sched = ?s and res = res and batches = "[[?a, ?b], [?c]]",
      THEN conjunct2, THEN conjunct1, rule_format, OF conjI [OF res batches]]
  from t [THEN conjunct2, THEN conjunct2, THEN conjunct2, THEN conjunct2, rule_format, OF quiet]
  have log: "batch_errors res = []"
    and rs: "map Inr (results res) = map (\<lambda>task. processTaskWithRetry task ?p (maxRetries ?o) None)
                                       [?a, ?b, ?c]"
    by blast+
  from rs have "map (Inr :: nat TaskResult \<Rightarrow> string + nat TaskResult) (results res)
      = [Inr ?ra, Inr ?rb, Inr ?rc]"
    by (simp only: m list.map ra rb rc)
  then have r: "results res = [?ra, ?rb, ?rc]" by auto
  have c1: "successful res = 1"
    using t [THEN conjunct1] by (simp only: r f1) simp
  have c2: "skipped res = 1"
    using t [THEN conjunct2, THEN conjunct1] by (simp only: r f2) simp
  have c3: "failed res = 1"
    using t [THEN conjunct2, THEN conjunct2, THEN conjunct1] by (simp only: r f3 log) simp
  have c4: "map error (results res)
         = [Some ''Failed after 1 retries: File skipped: already there'',
            Some ''Failed after 1 retries: network down'', None]"
    by (simp add: r)
  have first: "\<exists>res. processBatch [?a, ?b, ?c] 2 ?p ?o ?s = Some res
     \<and> successful res = 1 \<and> skipped res = 1 \<and> failed res = 1 \<and> batch_errors res = []
     \<and> map error (results res)
         = [Some ''Failed after 1 retries: File skipped: already there'',
            Some ''Failed after 1 retries: network down'', None]"
    by (rule exI [of _ res]) (intro conjI res c1 c2 c3 log c4)

  have run': "processBatch [?a, ?b, ?c] 2 ?p ?o' ?s
      = Some \<lparr>successful = 1, failed = 3, skipped = 1, results = [?ra, ?rb, ?rc],
              progress = [(2, 3), (3, 3)], waits = [],
              batch_errors = [(0, ''progress bar gone'')]\<rparr>"
    by code_simp
  from processBatch_counts [where options = ?o' and tasks = "[?a, ?b, ?c]" and batchSize = 2
      and processor = ?p and sched = ?s, THEN conjunct1, rule_format, OF seq']
  obtain res' where res': "processBatch [?a, ?b, ?c] 2 ?p ?o' ?s = Some res'" ..
  with run' have r': "results res' = [?ra, ?rb, ?rc]"
    and log': "batch_errors res' = [(0, ''progress bar gone'')]" by simp_all
  note t' = processBatch_counts [where options = ?o' and tasks = "[?a, ?b, ?c]" and batchSize = 2
      and processor = ?p and sched = ?s and res = res' and batches = "[[?a, ?b], [?c]]",
      THEN conjunct2, THEN conjunct1, rule_format, OF conjI [OF res' batches]]
  have d1: "successful res' = 1"
    using t' [THEN conjunct1] by (simp only: r' f1) simp
  have d2: "skipped res' = 1"
    using t' [THEN conjunct2, THEN conjunct1] by (simp only: r' f2) simp
  have d3: "failed res' = 3"
    using t' [THEN conjunct2, THEN conjunct2, THEN conjunct1] by (simp only: r' f3 log') simp
  have d4: "map error (results res')
         = [Some ''Failed after 1 retries: File skipped: already there'',
            Some ''Failed after 1 retries: network down'', None]"
    by (simp add: r')
  have second: "\<exists>res. processBatch [?a, ?b, ?c] 2 ?p ?o' ?s = Some res
     \<and> successful res = 1 \<and> skipped res = 1 \<and> failed res = 3
     \<and> batch_errors res = [(0, ''progress bar gone'')]
     \<and> map error (results res)
         = [Some ''Failed after 1 retries: File skipped: already there'',
            Some ''Failed after 1 retries: network down'', None]"
    by (rule exI [of _ res']) (intro conjI res' d1 d2 d3 log' d4)

  have na: "\<not> success ?ra" by simp
  from processBatch_counts [where task = ?a and processor = ?p and m = 1 and onError' = None
      and r = ?ra, THEN conjunct2, THEN conjunct2, rule_format, OF ra, THEN conjunct2,
      rule_format, OF na]
  obtain msg where msg: "?p ?a (nat 1) = Inl msg"
    and iff: "opt_includes (error ?ra) ''skipped'' \<longleftrightarrow> str_includes msg ''skipped''"
    by auto
  from msg have "msg = ''File skipped: already there''" by simp
  with iff ia have third: "str_includes ''File skipped: already there'' ''skipped''"
    by simp
  from first second third show ?thesis by (intro conjI)
qed

section \<open>Numeric transformation rules (FieldMapper.getTransformationRule)\<close>

text \<open>
  The values a custom field can hold, as far as the two numeric rules look at
  them. A number is \<open>NaN\<close>, an infinity or a finite value; finite values are
  exact rationals (the rounding of binary floating point, and the sign of zero,
  are outside the model). An object is given by the string it converts to.
\<close>

datatype js_number = NaN | Finite rat | PosInfinity | NegInfinity

datatype js_value =
  JUndefined | JNull | JBool bool | JNumber js_number | JString string | JObject string

text \<open>Truthiness, as \<^verbatim>\<open>!value\<close> and \<^verbatim>\<open>||\<close> see it.\<close>

fun falsy :: "js_value \<Rightarrow> bool" where
  "falsy JUndefined = True"
| "falsy JNull = True"
| "falsy (JBool b) = (\<not> b)"
| "falsy (JNumber n) = (n = NaN \<or> n = Finite 0)"
| "falsy (JString s) = (s = [])"
| "falsy (JObject s) = False"

subsection \<open>\<^verbatim>\<open>parseFloat\<close>\<close>

definition is_digit :: "char \<Rightarrow> bool" where
  "is_digit c = (48 \<le> (of_char c :: nat) \<and> (of_char c :: nat) \<le> 57)"

definition is_white :: "char \<Rightarrow> bool" where
  "is_white c = ((of_char c :: nat) \<in> {9, 10, 11, 12, 13, 32})"

definition digits_value :: "string \<Rightarrow> nat" where
  "digits_value ds = foldl (\<lambda>acc c. 10 * acc + ((of_char c :: nat) - 48)) 0 ds"

text \<open>An optional sign: whether it is a minus, and what follows it.\<close>

fun parse_sign :: "string \<Rightarrow> bool \<times> string" where
  "parse_sign [] = (False, [])"
| "parse_sign (c # cs) =
     (if c = CHR ''-'' then (True, cs) else if c = CHR ''+'' then (False, cs) else (False, c # cs))"

text \<open>
  An optional exponent part: \<open>e\<close> or \<open>E\<close>, an optional sign, and at least one
  digit. Without the digits there is no exponent part.
\<close>

definition parse_exponent :: "string \<Rightarrow> int" where
  "parse_exponent s =
     (case s of
        [] \<Rightarrow> 0
      | c # cs \<Rightarrow>
          if c = CHR ''e'' \<or> c = CHR ''E''
          then (case parse_sign cs of
                  (neg, r) \<Rightarrow>
                    (let ds = takeWhile is_digit r
                     in if ds = [] then 0
                        else if neg then - int (digits_value ds) else int (digits_value ds)))
          else 0)"

text \<open>
  \<^verbatim>\<open>parseFloat\<close> on a string: skip leading white space, then read the longest
  prefix that is a decimal literal (sign, \<^verbatim>\<open>Infinity\<close> or digits with an optional
  fraction and exponent); \<open>NaN\<close> when there is none.
\<close>

definition parseFloat_string :: "string \<Rightarrow> js_number" where
  "parseFloat_string s =
     (case parse_sign (dropWhile is_white s) of
        (neg, u) \<Rightarrow>
          if prefix ''Infinity'' u then (if neg then NegInfinity else PosInfinity)
          else
            (let ds1 = takeWhile is_digit u;
                 r1 = dropWhile is_digit u;
                 ds2 = (case r1 of [] \<Rightarrow> []
                        | c # r \<Rightarrow> if c = CHR ''.'' then takeWhile is_digit r else []);
                 r2 = (case r1 of [] \<Rightarrow> []
                       | c # r \<Rightarrow> if c = CHR ''.'' then dropWhile is_digit r else r1)
             in if ds1 = [] \<and> ds2 = [] then NaN
                else
                  (let e = parse_exponent r2;
                       m = (of_nat (digits_value (ds1 @ ds2)) :: rat) / 10 ^ length ds2;
                       x = (if 0 \<le> e then m * 10 ^ nat e else m / 10 ^ nat (- e))
                   in Finite (if neg then - x else x))))"

text \<open>
  \<^verbatim>\<open>parseFloat\<close> converts its argument to a string first. A number prints and
  parses back to itself; \<^verbatim>\<open>null\<close>, \<^verbatim>\<open>undefined\<close> and the booleans print as words
  that are no literal.
\<close>

fun parseFloat :: "js_value \<Rightarrow> js_number" where
  "parseFloat (JString s) = parseFloat_string s"
| "parseFloat (JObject s) = parseFloat_string s"
| "parseFloat (JNumber n) = n"
| "parseFloat JNull = NaN"
| "parseFloat JUndefined = NaN"
| "parseFloat (JBool b) = NaN"

subsection \<open>The two rules\<close>

text \<open>\<^verbatim>\<open>n || 0\<close> on a number.\<close>

definition or_zero :: "js_number \<Rightarrow> js_number" where
  "or_zero n = (if falsy (JNumber n) then Finite 0 else n)"

text \<open>
  \<^verbatim>\<open>'number': (value) => { if (value === null || value === undefined) return null;
  return parseFloat(value) || 0; }\<close>
\<close>

definition numberRule :: "js_value \<Rightarrow> js_value" where
  "numberRule v = (if v = JNull \<or> v = JUndefined then JNull else JNumber (or_zero (parseFloat v)))"

text \<open>
  \<^verbatim>\<open>'currency': (value) => { if (!value) return null; return parseFloat(value) || 0; }\<close>
\<close>

definition currencyRule :: "js_value \<Rightarrow> js_value" where
  "currencyRule v = (if falsy v then JNull else JNumber (or_zero (parseFloat v)))"

text \<open>
  The lookup \<^verbatim>\<open>transformations[fieldType.toLowerCase()]\<close>. The ten other entries
  of the table are a parameter, \<open>otherRules\<close>.
\<close>

definition getTransformationRule ::
  "(string \<Rightarrow> (js_value \<Rightarrow> js_value) option) \<Rightarrow> string \<Rightarrow> (js_value \<Rightarrow> js_value) option" where
  "getTransformationRule otherRules fieldType =
     (let key = toLowerCase fieldType
      in if key = ''number'' then Some numberRule
         else if key = ''currency'' then Some currencyRule
         else otherRules key)"

lemma parseFloat_string_empty: "parseFloat_string [] = NaN"
  by code_simp

text \<open>
  C2, as stated, at the input \<open>abc\<close>: it parses to \<open>NaN\<close>, and both rules return
  the number 0, not null.
\<close>

theorem numeric_rules_non_numeric_counterexample:
  "parseFloat (JString ''abc'') = NaN
   \<and> map_option (\<lambda>rule. rule (JString ''abc'')) (getTransformationRule (\<lambda>key. None) ''number'')
       = Some (JNumber (Finite 0))
   \<and> map_option (\<lambda>rule. rule (JString ''abc'')) (getTransformationRule (\<lambda>key. None) ''currency'')
       = Some (JNumber (Finite 0))
   \<and> JNumber (Finite 0) \<noteq> JNull"
  by code_simp

text \<open>
  C2, amended. \<open>getTransformationRule\<close> returns the two rules for the field types
  \<open>number\<close> and \<open>currency\<close>. On an input that parses to \<open>NaN\<close> the \<open>number\<close> rule
  returns null for null and undefined and 0 otherwise; the \<open>currency\<close> rule returns
  null for a falsy input (null, undefined, false, \<open>NaN\<close>, the empty string) and 0
  otherwise. On an input that parses to a number \<open>n\<close> the \<open>number\<close> rule returns
  \<open>n\<close>, and so does the \<open>currency\<close> rule when \<open>n\<close> is not zero.
\<close>

theorem numeric_rules:
  "getTransformationRule otherRules ''number'' = Some numberRule
   \<and> getTransformationRule otherRules ''currency'' = Some currencyRule
   \<and> (parseFloat v = NaN \<longrightarrow>
        numberRule v = (if v = JNull \<or> v = JUndefined then JNull else JNumber (Finite 0))
      \<and> currencyRule v = (if falsy v then JNull else JNumber (Finite 0)))
   \<and> (parseFloat v = n \<and> n \<noteq> NaN \<longrightarrow> numberRule v = JNumber n)
   \<and> (parseFloat v = n \<and> n \<noteq> NaN \<and> n \<noteq> Finite 0 \<longrightarrow> currencyRule v = JNumber n)"
proof (intro conjI impI)
  have n: "toLowerCase ''number'' = ''number''" by code_simp
  have c: "toLowerCase ''currency'' = ''currency''" by code_simp
  show "getTransformationRule otherRules ''number'' = Some numberRule"
    by (simp add: getTransformationRule_def n)
  show "getTransformationRule otherRules ''currency'' = Some currencyRule"
    by (simp add: getTransformationRule_def c)
next
  assume "parseFloat v = NaN"
  then show "numberRule v = (if v = JNull \<or> v = JUndefined then JNull else JNumber (Finite 0))"
    by (simp add: numberRule_def or_zero_def)
next
  assume "parseFloat v = NaN"
  then show "currencyRule v = (if falsy v then JNull else JNumber (Finite 0))"
    by (simp add: currencyRule_def or_zero_def)
next
  assume h: "parseFloat v = n \<and> n \<noteq> NaN"
  then have "v \<noteq> JNull" "v \<noteq> JUndefined" by auto
  with h show "numberRule v = JNumber n"
    by (auto simp: numberRule_def or_zero_def)
next
  assume h: "parseFloat v = n \<and> n \<noteq> NaN \<and> n \<noteq> Finite 0"
  then have "\<not> falsy v" by (cases v) (auto simp: parseFloat_string_empty)
  with h show "currencyRule v = JNumber n"
    by (auto simp: currencyRule_def or_zero_def)
qed

theorem numeric_rules_witness:
  "parseFloat (JString ''n/a'') = NaN
   \<and> numberRule (JString ''n/a'') = JNumber (Finite 0)
   \<and> currencyRule (JString '''') = JNull
   \<and> parseFloat (JString '' 12.5e1 USD'') = Finite 125
   \<and> numberRule (JString '' 12.5e1 USD'') = JNumber (Finite 125)
   \<and> currencyRule (JString '' 12.5e1 USD'') = JNumber (Finite 125)"
proof -
  have p1: "parseFloat (JString ''n/a'') = NaN" by code_simp
  have p2: "parseFloat (JString '''') = NaN" by code_simp
  have p3: "parseFloat (JString '' 12.5e1 USD'') = Finite 125" by code_simp
  have h3: "parseFloat (JString '' 12.5e1 USD'') = Finite 125 \<and> Finite 125 \<noteq> NaN" using p3 by simp
  have h4: "parseFloat (JString '' 12.5e1 USD'') = Finite 125 \<and> Finite 125 \<noteq> NaN
      \<and> Finite 125 \<noteq> Finite 0" using p3 by simp
  note t1 = numeric_rules [of "\<lambda>key. None" "JString ''n/a''" NaN,
      THEN conjunct2, THEN conjunct2, THEN conjunct1, rule_format, OF p1]
  note t2 = numeric_rules [of "\<lambda>key. None" "JString ''''" NaN,
      THEN conjunct2, THEN conjunct2, THEN conjunct1, rule_format, OF p2]
  note t3 = numeric_rules [of "\<lambda>key. None" "JString '' 12.5e1 USD''" "Finite 125",
      THEN conjunct2, THEN conjunct2, THEN conjunct2, THEN conjunct1, rule_format, OF h3]
  note t4 = numeric_rules [of "\<lambda>key. None" "JString '' 12.5e1 USD''" "Finite 125",
      THEN conjunct2, THEN conjunct2, THEN conjunct2, THEN conjunct2, rule_format, OF h4]
  show ?thesis using p1 p3 t1 t2 t3 t4 by simp
qed

section \<open>File synchronisation (DuplicateChecker, MondayAPI.searchItemsByName, FileSyncEngine)\<close>

subsection \<open>Data\<close>

text \<open>
  The fields of the source's interfaces that the workflows read. A task extends
  the batch work item (\<^verbatim>\<open>id\<close>, \<^verbatim>\<open>name\<close>). \<^verbatim>\<open>attachments\<close> and \<^verbatim>\<open>assets\<close> may be
  missing from a response, and so may an item's \<^verbatim>\<open>board\<close> and a board's
  \<^verbatim>\<open>columns\<close>. File contents are byte strings; identifiers stay strings
  (\<^verbatim>\<open>parseInt\<close> on an identifier is not modelled).
\<close>

record ClickUpAttachment =
  title :: string
  att_size :: int
  att_url :: string
  extension :: string

record ClickUpTask = BatchTask +
  task_url :: string
  attachments :: "ClickUpAttachment list option"
  parent :: "string option"
  description :: string
  list_id :: string

record MondayAsset =
  asset_name :: string
  file_size :: int

record MondayItem =
  item_id :: string
  item_name :: string
  item_board_id :: "string option"
  assets :: "MondayAsset list option"

record MondayColumn =
  column_id :: string
  column_title :: string
  column_type :: string

record MondayBoard =
  board_id :: string
  board_name :: string
  columns :: "MondayColumn list option"

record SyncOptions =
  skipDuplicates :: bool
  clickupLinkField :: "string option"

text \<open>
  The rows of the tables \<^verbatim>\<open>file_transfers\<close> and \<^verbatim>\<open>task_mappings\<close> (without the
  timestamps and the copy of the task payload).
\<close>

datatype transfer_status = Pending | Transferred | Skipped | Failed

record file_transfer =
  ft_job_id :: string
  ft_clickup_task_id :: string
  ft_monday_item_id :: string
  ft_file_name :: string
  ft_file_size :: int
  ft_status :: transfer_status
  ft_error_message :: "string option"

record task_mapping =
  tm_replication_id :: string
  tm_clickup_task_id :: string
  tm_monday_item_id :: string
  tm_clickup_parent_id :: "string option"
  tm_monday_parent_id :: "string option"
  tm_sync_status :: string

text \<open>
  What a run changes: the two tables, the progress written to the job row
  (total, processed), and the files that reached the target service (item,
  file name).
\<close>

record world =
  file_transfers :: "file_transfer list"
  task_mappings :: "task_mapping list"
  job_progress :: "(nat \<times> nat) list"
  uploads :: "(string \<times> string) list"

text \<open>
  The two remote services, as what each call answers: a result, or the error
  it throws. The answer depends on the call's arguments only.
\<close>

record services =
  getTasksWithAttachments :: "string \<Rightarrow> js_error + ClickUpTask list"
  getItems :: "string \<Rightarrow> js_error + MondayItem list"
  downloadAttachment :: "string \<Rightarrow> js_error + string"
  getBoard :: "string \<Rightarrow> js_error + MondayBoard"
  createColumn :: "string \<Rightarrow> string \<Rightarrow> string \<Rightarrow> js_error + MondayColumn"
  addFileToColumn :: "string \<Rightarrow> string \<Rightarrow> string \<Rightarrow> string \<Rightarrow> js_error + unit"

subsection \<open>DuplicateChecker\<close>

definition isWithinSizeLimit :: "int \<Rightarrow> int option \<Rightarrow> bool" where
  "isWithinSizeLimit fileSize maxSizeBytes =
     (fileSize \<le> (case maxSizeBytes of None \<Rightarrow> 500 * 1024 * 1024 | Some m \<Rightarrow> m))"

text \<open>\<^verbatim>\<open>filename.split('.').pop()\<close>: what follows the last dot, or the whole name.\<close>

definition last_segment :: "string \<Rightarrow> string" where
  "last_segment filename = rev (takeWhile (\<lambda>c. c \<noteq> CHR ''.'') (rev filename))"

definition isAllowedFileType :: "string \<Rightarrow> string list option \<Rightarrow> bool" where
  "isAllowedFileType filename allowedExtensions =
     (case allowedExtensions of
        None \<Rightarrow> True
      | Some exts \<Rightarrow> exts = [] \<or> List.member exts (toLowerCase (last_segment filename)))"

record validation =
  valid :: bool
  validation_error :: "string option"

definition validateFile :: "ClickUpAttachment \<Rightarrow> int option \<Rightarrow> string list option \<Rightarrow> validation" where
  "validateFile attachment maxSizeBytes allowedExtensions =
     (if \<not> isWithinSizeLimit (att_size attachment) maxSizeBytes
      then \<lparr>valid = False,
             validation_error = Some (''File size '' @ show_int (att_size attachment)
                                      @ '' exceeds maximum allowed size'')\<rparr>
      else if \<not> isAllowedFileType (title attachment) allowedExtensions
      then \<lparr>valid = False,
             validation_error = Some (''File type not allowed: '' @ extension attachment)\<rparr>
      else \<lparr>valid = True, validation_error = None\<rparr>)"

text \<open>The matched asset, if any: \<^verbatim>\<open>isDuplicate\<close> is whether there is one.\<close>

definition checkByNameAndSize :: "ClickUpAttachment \<Rightarrow> MondayAsset list \<Rightarrow> MondayAsset option" where
  "checkByNameAndSize attachment existingAssets =
     find (\<lambda>asset. toLowerCase (asset_name asset) = toLowerCase (title attachment)
                   \<and> file_size asset = att_size attachment) existingAssets"

text \<open>
  \<^verbatim>\<open>DuplicateChecker.check\<close> as the file sync calls it, without a buffer: only the
  first strategy runs (the second, by hash, never reports a duplicate).
\<close>

definition check_duplicate :: "ClickUpAttachment \<Rightarrow> MondayAsset list \<Rightarrow> MondayAsset option" where
  "check_duplicate attachment existingAssets = checkByNameAndSize attachment existingAssets"

subsection \<open>Finding the target item\<close>

definition searchItemsByName :: "services \<Rightarrow> string \<Rightarrow> string \<Rightarrow> js_error + MondayItem list" where
  "searchItemsByName svc boardId searchQuery =
     (case getItems svc boardId of
        Inl e \<Rightarrow> Inl e
      | Inr items \<Rightarrow>
          Inr (filter (\<lambda>item. str_includes (toLowerCase (item_name item)) (toLowerCase searchQuery))
                 items))"

text \<open>
  The body of the loop of \<^verbatim>\<open>findMatchingItems\<close>, for one task: an item of equal
  name first, else an item whose name contains the task's or is contained in
  it. (\<^verbatim>\<open>syncFiles\<close> does not call \<^verbatim>\<open>findMatchingItems\<close>.)
\<close>

definition findMatchingItem :: "MondayItem list \<Rightarrow> string \<Rightarrow> MondayItem option" where
  "findMatchingItem mondayItems taskName' =
     (case find (\<lambda>item. toLowerCase (item_name item) = toLowerCase taskName') mondayItems of
        Some item \<Rightarrow> Some item
      | None \<Rightarrow>
          find (\<lambda>item. str_includes (toLowerCase (item_name item)) (toLowerCase taskName')
                      \<or> str_includes (toLowerCase taskName') (toLowerCase (item_name item)))
            mondayItems)"

subsection \<open>Transferring one attachment\<close>

definition logFileTransfer ::
  "string \<Rightarrow> string \<Rightarrow> string \<Rightarrow> ClickUpAttachment \<Rightarrow> transfer_status \<Rightarrow> world \<Rightarrow> world" where
  "logFileTransfer jobId clickupTaskId mondayItemId attachment status w =
     w\<lparr>file_transfers := file_transfers w
          @ [\<lparr>ft_job_id = jobId, ft_clickup_task_id = clickupTaskId,
               ft_monday_item_id = mondayItemId, ft_file_name = title attachment,
               ft_file_size = att_size attachment, ft_status = status,
               ft_error_message = None\<rparr>]\<rparr>"

definition ensureFileColumn :: "services \<Rightarrow> string \<Rightarrow> js_error + string" where
  "ensureFileColumn svc boardId =
     (case getBoard svc boardId of
        Inl e \<Rightarrow> Inl e
      | Inr board \<Rightarrow>
          (case find (\<lambda>col. column_type col = ''file'')
                  (case columns board of None \<Rightarrow> [] | Some cols \<Rightarrow> cols) of
             Some fileColumn \<Rightarrow> Inr (column_id fileColumn)
           | None \<Rightarrow>
               (case createColumn svc boardId ''Files'' ''file'' of
                  Inl e \<Rightarrow> Inl e
                | Inr newColumn \<Rightarrow> Inr (column_id newColumn))))"

text \<open>Reading \<^verbatim>\<open>mondayItem.board.id\<close> of an item that carries no board.\<close>

definition no_board_error :: js_error where
  "no_board_error =
     \<lparr>message = Some ''Cannot read properties of undefined (reading 'id')'', code = None\<rparr>"

text \<open>
  \<^verbatim>\<open>transferAttachment\<close>: what it returns or throws, and the world after it.
  Console output is not part of the world.
\<close>

definition transferAttachment ::
  "services \<Rightarrow> string \<Rightarrow> ClickUpTask \<Rightarrow> ClickUpAttachment \<Rightarrow> MondayItem \<Rightarrow> MondayAsset list
     \<Rightarrow> SyncOptions \<Rightarrow> world \<Rightarrow> (js_error + unit) \<times> world" where
  "transferAttachment svc jobId task attachment mondayItem existingAssets options w =
     (if \<not> valid (validateFile attachment None None) then (Inr (), w)
      else if skipDuplicates options \<and> check_duplicate attachment existingAssets \<noteq> None
      then (Inr (), logFileTransfer jobId (task_id task) (item_id mondayItem) attachment Skipped w)
      else
        (case downloadAttachment svc (att_url attachment) of
           Inl e \<Rightarrow> (Inl e, w)
         | Inr fileBuffer \<Rightarrow>
             (case item_board_id mondayItem of
                None \<Rightarrow> (Inl no_board_error, w)
              | Some boardId \<Rightarrow>
                  (case ensureFileColumn svc boardId of
                     Inl e \<Rightarrow> (Inl e, w)
                   | Inr fileColumnId \<Rightarrow>
                       (case addFileToColumn svc (item_id mondayItem) fileColumnId fileBuffer
                               (title attachment) of
                          Inl e \<Rightarrow> (Inl e, w)
                        | Inr u \<Rightarrow>
                            (Inr (),
                             logFileTransfer jobId (task_id task) (item_id mondayItem) attachment
                               Transferred
                               (w\<lparr>uploads := uploads w
                                    @ [(item_id mondayItem, title attachment)]\<rparr>)))))))"

subsection \<open>One task, and the whole list\<close>

text \<open>
  The loop over a task's attachments: \<^verbatim>\<open>transferAttachment\<close> for each, and the
  first error is thrown on.
\<close>

fun transferAttachments_loop ::
  "services \<Rightarrow> string \<Rightarrow> ClickUpTask \<Rightarrow> ClickUpAttachment list \<Rightarrow> MondayItem \<Rightarrow> MondayAsset list
     \<Rightarrow> SyncOptions \<Rightarrow> world \<Rightarrow> (js_error + unit) \<times> world" where
  "transferAttachments_loop svc jobId task [] mondayItem existingAssets options w = (Inr (), w)"
| "transferAttachments_loop svc jobId task (attachment # rest) mondayItem existingAssets options w =
     (case transferAttachment svc jobId task attachment mondayItem existingAssets options w of
        (Inl e, w') \<Rightarrow> (Inl e, w')
      | (Inr u, w') \<Rightarrow>
          transferAttachments_loop svc jobId task rest mondayItem existingAssets options w')"

text \<open>
  \<^verbatim>\<open>syncTaskFiles\<close> from the point where the item is known. Adding the link back
  to the task (\<^verbatim>\<open>addClickUpLink\<close>) changes the remote item only and swallows its
  own errors, so it leaves no trace here.
\<close>

definition syncItemFiles ::
  "services \<Rightarrow> string \<Rightarrow> ClickUpTask \<Rightarrow> MondayItem \<Rightarrow> SyncOptions \<Rightarrow> world
     \<Rightarrow> (js_error + unit) \<times> world" where
  "syncItemFiles svc jobId task mondayItem options w =
     transferAttachments_loop svc jobId task
       (case attachments task of None \<Rightarrow> [] | Some atts \<Rightarrow> atts) mondayItem
       (case assets mondayItem of None \<Rightarrow> [] | Some existing \<Rightarrow> existing) options w"

definition syncTaskFiles ::
  "services \<Rightarrow> string \<Rightarrow> ClickUpTask \<Rightarrow> string \<Rightarrow> SyncOptions \<Rightarrow> world
     \<Rightarrow> (js_error + unit) \<times> world" where
  "syncTaskFiles svc jobId task mondayBoardId options w =
     (case searchItemsByName svc mondayBoardId (task_name task) of
        Inl e \<Rightarrow> (Inl e, w)
      | Inr mondayItems \<Rightarrow>
          (case mondayItems of
             [] \<Rightarrow> (Inr (), w)
           | mondayItem # others \<Rightarrow> syncItemFiles svc jobId task mondayItem options w))"

record SyncError =
  se_taskId :: string
  se_taskName :: string
  se_error :: "string option"
  se_retryCount :: nat

record FileSyncResult =
  sync_success :: bool
  filesTransferred :: nat
  filesSkipped :: nat
  errors :: "SyncError list"

definition updateProgress :: "nat \<Rightarrow> nat \<Rightarrow> world \<Rightarrow> world" where
  "updateProgress totalTasks processedTasks w =
     w\<lparr>job_progress := job_progress w @ [(totalTasks, processedTasks)]\<rparr>"

text \<open>\<^verbatim>\<open>task.attachments?.length || 0\<close>\<close>

definition attachment_count :: "ClickUpTask \<Rightarrow> nat" where
  "attachment_count task = (case attachments task of None \<Rightarrow> 0 | Some atts \<Rightarrow> length atts)"

text \<open>The loop of \<^verbatim>\<open>syncFiles\<close> over the tasks, from index \<open>i\<close>.\<close>

fun syncFiles_loop ::
  "services \<Rightarrow> string \<Rightarrow> string \<Rightarrow> SyncOptions \<Rightarrow> nat \<Rightarrow> nat \<Rightarrow> ClickUpTask list
     \<Rightarrow> FileSyncResult \<Rightarrow> world \<Rightarrow> FileSyncResult \<times> world" where
  "syncFiles_loop svc jobId mondayBoardId options totalTasks i [] result w = (result, w)"
| "syncFiles_loop svc jobId mondayBoardId options totalTasks i (task # rest) result w =
     (case syncTaskFiles svc jobId task mondayBoardId options w of
        (Inr u, w') \<Rightarrow>
          syncFiles_loop svc jobId mondayBoardId options totalTasks (Suc i) rest
            (result\<lparr>filesTransferred := filesTransferred result + attachment_count task\<rparr>)
            (updateProgress totalTasks (Suc i) w')
      | (Inl e, w') \<Rightarrow>
          syncFiles_loop svc jobId mondayBoardId options totalTasks (Suc i) rest
            (result\<lparr>sync_success := False,
                    errors := errors result
                      @ [\<lparr>se_taskId = task_id task, se_taskName = task_name task,
                           se_error = message e, se_retryCount = 0\<rparr>]\<rparr>)
            w')"

definition syncFiles ::
  "services \<Rightarrow> string \<Rightarrow> string \<Rightarrow> string \<Rightarrow> SyncOptions \<Rightarrow> world \<Rightarrow> FileSyncResult \<times> world" where
  "syncFiles svc jobId clickupListId mondayBoardId options w =
     (case getTasksWithAttachments svc clickupListId of
        Inl e \<Rightarrow>
          (\<lparr>sync_success = False, filesTransferred = 0, filesSkipped = 0,
            errors = [\<lparr>se_taskId = ''N/A'', se_taskName = ''File Sync'',
                       se_error = message e, se_retryCount = 0\<rparr>]\<rparr>, w)
      | Inr tasksWithAttachments \<Rightarrow>
          syncFiles_loop svc jobId mondayBoardId options (length tasksWithAttachments) 0
            tasksWithAttachments
            \<lparr>sync_success = True, filesTransferred = 0, filesSkipped = 0, errors = []\<rparr>
            (updateProgress (length tasksWithAttachments) 0 w))"

subsection \<open>Which item a task's files go to\<close>

lemma filter_Nil_find: "find P xs = None \<Longrightarrow> filter P xs = []"
  by (induction xs) (auto split: if_splits)

lemma filter_Cons_find: "find P xs = Some x \<Longrightarrow> \<exists>others. filter P xs = x # others"
  by (induction xs) (auto split: if_splits)

text \<open>
  C3, as stated, on a board with the items \<open>Task A extended\<close> and \<open>task a\<close>, for the
  task \<open>Task A\<close> with one attachment: the second item is the one of equal name
  (and the one \<open>findMatchingItem\<close> gives), and the file goes to the first. And
  on a board with the one item \<open>Fix\<close>, the task \<open>Fix bug\<close> is skipped, though
  the item's name is contained in the task's.
\<close>

theorem syncTaskFiles_first_match_counterexample:
  "toLowerCase ''task a'' = toLowerCase ''Task A''
   \<and> findMatchingItem
        [\<lparr>item_id = ''1'', item_name = ''Task A extended'', item_board_id = Some ''b'', assets = None\<rparr>,
         \<lparr>item_id = ''2'', item_name = ''task a'', item_board_id = Some ''b'', assets = None\<rparr>]
        ''Task A''
       = Some \<lparr>item_id = ''2'', item_name = ''task a'', item_board_id = Some ''b'', assets = None\<rparr>
   \<and> uploads (snd (syncTaskFiles
        \<lparr>getTasksWithAttachments = (\<lambda>l. Inr []),
         getItems = (\<lambda>b. Inr
           [\<lparr>item_id = ''1'', item_name = ''Task A extended'', item_board_id = Some ''b'', assets = None\<rparr>,
            \<lparr>item_id = ''2'', item_name = ''task a'', item_board_id = Some ''b'', assets = None\<rparr>]),
         downloadAttachment = (\<lambda>u. Inr ''bytes''),
         getBoard = (\<lambda>b. Inr \<lparr>board_id = ''b'', board_name = ''B'',
           columns = Some [\<lparr>column_id = ''files'', column_title = ''Files'', column_type = ''file''\<rparr>]\<rparr>),
         createColumn = (\<lambda>b t k. Inr \<lparr>column_id = ''new'', column_title = t, column_type = k\<rparr>),
         addFileToColumn = (\<lambda>i c f n. Inr ())\<rparr>
        ''job''
        \<lparr>task_id = ''t'', task_name = ''Task A'', task_url = ''u'',
         attachments = Some [\<lparr>title = ''f.txt'', att_size = 10, att_url = ''a'', extension = ''txt''\<rparr>],
         parent = None, description = '''', list_id = ''l''\<rparr>
        ''b'' \<lparr>skipDuplicates = True, clickupLinkField = None\<rparr>
        \<lparr>file_transfers = [], task_mappings = [], job_progress = [], uploads = []\<rparr>))
       = [(''1'', ''f.txt'')]
   \<and> findMatchingItem
        [\<lparr>item_id = ''3'', item_name = ''Fix'', item_board_id = Some ''b'', assets = None\<rparr>] ''Fix bug''
       = Some \<lparr>item_id = ''3'', item_name = ''Fix'', item_board_id = Some ''b'', assets = None\<rparr>
   \<and> syncTaskFiles
        \<lparr>getTasksWithAttachments = (\<lambda>l. Inr []),
         getItems = (\<lambda>b. Inr
           [\<lparr>item_id = ''3'', item_name = ''Fix'', item_board_id = Some ''b'', assets = None\<rparr>]),
         downloadAttachment = (\<lambda>u. Inr ''bytes''),
         getBoard = (\<lambda>b. Inr \<lparr>board_id = ''b'', board_name = ''B'', columns = None\<rparr>),
         createColumn = (\<lambda>b t k. Inr \<lparr>column_id = ''new'', column_title = t, column_type = k\<rparr>),
         addFileToColumn = (\<lambda>i c f n. Inr ())\<rparr>
        ''job''
        \<lparr>task_id = ''t'', task_name = ''Fix bug'', task_url = ''u'',
         attachments = Some [\<lparr>title = ''f.txt'', att_size = 10, att_url = ''a'', extension = ''txt''\<rparr>],
         parent = None, description = '''', list_id = ''l''\<rparr>
        ''b'' \<lparr>skipDuplicates = True, clickupLinkField = None\<rparr>
        \<lparr>file_transfers = [], task_mappings = [], job_progress = [], uploads = []\<rparr>
       = (Inr (), \<lparr>file_transfers = [], task_mappings = [], job_progress = [], uploads = []\<rparr>)"
  by code_simp

text \<open>
  C3, amended. The item a task's files go to is the first item of the board, in
  the order the board lists its items, whose lower-cased name contains the
  task's lower-cased name; if no item is such, the task is skipped: nothing is
  thrown and nothing changes.
\<close>

theorem syncTaskFiles_target:
  "getItems svc mondayBoardId = Inr items \<longrightarrow>
     (case find (\<lambda>item. str_includes (toLowerCase (item_name item)) (toLowerCase (task_name task)))
             items of
        None \<Rightarrow> syncTaskFiles svc jobId task mondayBoardId options w = (Inr (), w)
      | Some item \<Rightarrow>
          syncTaskFiles svc jobId task mondayBoardId options w
            = syncItemFiles svc jobId task item options w)"
proof
  assume g: "getItems svc mondayBoardId = Inr items"
  let ?P = "\<lambda>item. str_includes (toLowerCase (item_name item)) (toLowerCase (task_name task))"
  show "case find ?P items of
        None \<Rightarrow> syncTaskFiles svc jobId task mondayBoardId options w = (Inr (), w)
      | Some item \<Rightarrow>
          syncTaskFiles svc jobId task mondayBoardId options w
            = syncItemFiles svc jobId task item options w"
  proof (cases "find ?P items")
    case None
    from filter_Nil_find [OF this] g show ?thesis
      by (simp add: None syncTaskFiles_def searchItemsByName_def)
  next
    case (Some item)
    from filter_Cons_find [OF this] obtain others where "filter ?P items = item # others" ..
    with g show ?thesis
      by (simp add: Some syncTaskFiles_def searchItemsByName_def)
  qed
qed

theorem syncTaskFiles_target_witness:
  "syncTaskFiles
     \<lparr>getTasksWithAttachments = (\<lambda>l. Inr []),
      getItems = (\<lambda>b. Inr
        [\<lparr>item_id = ''0'', item_name = ''Other'', item_board_id = Some ''b'', assets = None\<rparr>,
         \<lparr>item_id = ''1'', item_name = ''Task A extended'', item_board_id = Some ''b'', assets = None\<rparr>,
         \<lparr>item_id = ''2'', item_name = ''task a'', item_board_id = Some ''b'', assets = None\<rparr>]),
      downloadAttachment = (\<lambda>u. Inr ''bytes''),
      getBoard = (\<lambda>b. Inr \<lparr>board_id = ''b'', board_name = ''B'', columns = None\<rparr>),
      createColumn = (\<lambda>b t k. Inr \<lparr>column_id = ''new'', column_title = t, column_type = k\<rparr>),
      addFileToColumn = (\<lambda>i c f n. Inr ())\<rparr>
     ''job''
     \<lparr>task_id = ''t'', task_name = ''Task A'', task_url = ''u'',
      attachments = Some [\<lparr>title = ''f.txt'', att_size = 10, att_url = ''a'', extension = ''txt''\<rparr>],
      parent = None, description = '''', list_id = ''l''\<rparr>
     ''b'' \<lparr>skipDuplicates = True, clickupLinkField = None\<rparr>
     \<lparr>file_transfers = [], task_mappings = [], job_progress = [], uploads = []\<rparr>
   = syncItemFiles
     \<lparr>getTasksWithAttachments = (\<lambda>l. Inr []),
      getItems = (\<lambda>b. Inr
        [\<lparr>item_id = ''0'', item_name = ''Other'', item_board_id = Some ''b'', assets = None\<rparr>,
         \<lparr>item_id = ''1'', item_name = ''Task A extended'', item_board_id = Some ''b'', assets = None\<rparr>,
         \<lparr>item_id = ''2'', item_name = ''task a'', item_board_id = Some ''b'', assets = None\<rparr>]),
      downloadAttachment = (\<lambda>u. Inr ''bytes''),
      getBoard = (\<lambda>b. Inr \<lparr>board_id = ''b'', board_name = ''B'', columns = None\<rparr>),
      createColumn = (\<lambda>b t k. Inr \<lparr>column_id = ''new'', column_title = t, column_type = k\<rparr>),
      addFileToColumn = (\<lambda>i c f n. Inr ())\<rparr>
     ''job''
     \<lparr>task_id = ''t'', task_name = ''Task A'', task_url = ''u'',
      attachments = Some [\<lparr>title = ''f.txt'', att_size = 10, att_url = ''a'', extension = ''txt''\<rparr>],
      parent = None, description = '''', list_id = ''l''\<rparr>
     \<lparr>item_id = ''1'', item_name = ''Task A extended'', item_board_id = Some ''b'', assets = None\<rparr>
     \<lparr>skipDuplicates = True, clickupLinkField = None\<rparr>
     \<lparr>file_transfers = [], task_mappings = [], job_progress = [], uploads = []\<rparr>"
proof -
  let ?items =
    "[\<lparr>item_id = ''0'', item_name = ''Other'', item_board_id = Some ''b'', assets = None\<rparr>,
      \<lparr>item_id = ''1'', item_name = ''Task A extended'', item_board_id = Some ''b'', assets = None\<rparr>,
      \<lparr>item_id = ''2'', item_name = ''task a'', item_board_id = Some ''b'', assets = None\<rparr>]"
  let ?svc =
    "\<lparr>getTasksWithAttachments = (\<lambda>l. Inr []),
      getItems = (\<lambda>b. Inr ?items),
      downloadAttachment = (\<lambda>u. Inr ''bytes''),
      getBoard = (\<lambda>b. Inr \<lparr>board_id = ''b'', board_name = ''B'', columns = None\<rparr>),
      createColumn = (\<lambda>b t k. Inr \<lparr>column_id = ''new'', column_title = t, column_type = k\<rparr>),
      addFileToColumn = (\<lambda>i c f n. Inr ())\<rparr>"
  let ?task =
    "\<lparr>task_id = ''t'', task_name = ''Task A'', task_url = ''u'',
      attachments = Some [\<lparr>title = ''f.txt'', att_size = 10, att_url = ''a'', extension = ''txt''\<rparr>],
      parent = None, description = '''', list_id = ''l''\<rparr>"
  have g: "getItems ?svc ''b'' = Inr ?items" by simp
  have f: "find (\<lambda>item. str_includes (toLowerCase (item_name item)) (toLowerCase (task_name ?task)))
             ?items
           = Some \<lparr>item_id = ''1'', item_name = ''Task A extended'', item_board_id = Some ''b'',
                   assets = None\<rparr>"
    by code_simp
  from syncTaskFiles_target [where svc = ?svc and mondayBoardId = "''b''" and items = ?items
      and task = ?task and jobId = "''job''"
      and options = "\<lparr>skipDuplicates = True, clickupLinkField = None\<rparr>"
      and w = "\<lparr>file_transfers = [], task_mappings = [], job_progress = [], uploads = []\<rparr>",
      rule_format, OF g]
  show ?thesis unfolding f by (simp only: option.case)
qed

subsection \<open>The counters of \<open>syncFiles\<close>\<close>

text \<open>What a step returns or throws does not depend on the world it runs in.\<close>

lemma transferAttachment_outcome:
  "fst (transferAttachment svc jobId task a item existing options w)
     = fst (transferAttachment svc jobId task a item existing options w')"
  by (auto simp: transferAttachment_def split: sum.splits option.splits)

lemma transferAttachments_loop_outcome:
  "fst (transferAttachments_loop svc jobId task atts item existing options w)
     = fst (transferAttachments_loop svc jobId task atts item existing options w')"
proof (induction atts arbitrary: w w')
  case Nil
  show ?case by simp
next
  case (Cons a atts)
  obtain r w1 where t1: "transferAttachment svc jobId task a item existing options w = (r, w1)"
    by (cases "transferAttachment svc jobId task a item existing options w")
  obtain r' w1' where t2: "transferAttachment svc jobId task a item existing options w' = (r', w1')"
    by (cases "transferAttachment svc jobId task a item existing options w'")
  from transferAttachment_outcome [of svc jobId task a item existing options w w'] t1 t2
  have rr: "r' = r" by simp
  show ?case
  proof (cases r)
    case (Inl e)
    with t1 t2 rr show ?thesis by simp
  next
    case (Inr u)
    with t1 t2 rr Cons.IH [of w1 w1'] show ?thesis by simp
  qed
qed

lemma syncTaskFiles_outcome:
  "fst (syncTaskFiles svc jobId task b options w) = fst (syncTaskFiles svc jobId task b options w')"
  using transferAttachments_loop_outcome
  by (simp add: syncTaskFiles_def syncItemFiles_def split: sum.splits list.splits)

lemma syncFiles_loop_counts:
  "filesSkipped (fst (syncFiles_loop svc jobId b options n i tasks result w)) = filesSkipped result
   \<and> filesTransferred (fst (syncFiles_loop svc jobId b options n i tasks result w))
       = filesTransferred result
         + sum_list (map (\<lambda>task. if fst (syncTaskFiles svc jobId task b options w0) = Inr ()
                                  then attachment_count task else 0) tasks)"
proof (induction tasks arbitrary: i result w)
  case Nil
  show ?case by simp
next
  case (Cons task tasks)
  obtain r w1 where t: "syncTaskFiles svc jobId task b options w = (r, w1)"
    by (cases "syncTaskFiles svc jobId task b options w")
  from syncTaskFiles_outcome [of svc jobId task b options w w0] t
  have r0: "fst (syncTaskFiles svc jobId task b options w0) = r" by simp
  show ?case
  proof (cases r)
    case (Inl e)
    with t r0 Cons.IH show ?thesis by simp
  next
    case (Inr u)
    with t r0 Cons.IH show ?thesis by simp
  qed
qed

text \<open>
  C9. In every run of \<open>syncFiles\<close> the result's \<open>filesSkipped\<close> is 0, and
  \<open>filesTransferred\<close> is the sum, over the tasks whose \<open>syncTaskFiles\<close> does not
  throw, of the task's attachment count. \<open>syncTaskFiles\<close> does not throw for a
  task with no matching item, and \<open>transferAttachment\<close> does not throw for an
  attachment that validation rejects or that is skipped as a duplicate; in all
  three cases nothing is uploaded.
\<close>

theorem syncFiles_counters:
  "filesSkipped (fst (syncFiles svc jobId clickupListId mondayBoardId options w)) = 0
   \<and> filesTransferred (fst (syncFiles svc jobId clickupListId mondayBoardId options w))
       = (case getTasksWithAttachments svc clickupListId of
            Inl e \<Rightarrow> 0
          | Inr tasks \<Rightarrow>
              sum_list (map (\<lambda>task. if fst (syncTaskFiles svc jobId task mondayBoardId options w) = Inr ()
                                     then attachment_count task else 0) tasks))
   \<and> (searchItemsByName svc mondayBoardId (task_name task) = Inr [] \<longrightarrow>
        syncTaskFiles svc jobId task mondayBoardId options w = (Inr (), w))
   \<and> (\<not> valid (validateFile attachment None None) \<longrightarrow>
        transferAttachment svc jobId task attachment mondayItem existingAssets options w = (Inr (), w))
   \<and> (valid (validateFile attachment None None) \<and> skipDuplicates options
        \<and> check_duplicate attachment existingAssets \<noteq> None \<longrightarrow>
        fst (transferAttachment svc jobId task attachment mondayItem existingAssets options w) = Inr ()
      \<and> uploads (snd (transferAttachment svc jobId task attachment mondayItem existingAssets options w))
          = uploads w)"
proof (intro conjI impI)
  show "filesSkipped (fst (syncFiles svc jobId clickupListId mondayBoardId options w)) = 0"
    by (simp add: syncFiles_def syncFiles_loop_counts split: sum.splits)
  show "filesTransferred (fst (syncFiles svc jobId clickupListId mondayBoardId options w))
       = (case getTasksWithAttachments svc clickupListId of
            Inl e \<Rightarrow> 0
          | Inr tasks \<Rightarrow>
              sum_list (map (\<lambda>task. if fst (syncTaskFiles svc jobId task mondayBoardId options w) = Inr ()
                                     then attachment_count task else 0) tasks))"
    by (simp add: syncFiles_def syncFiles_loop_counts [where ?w0.0 = w] split: sum.splits)
next
  assume "searchItemsByName svc mondayBoardId (task_name task) = Inr []"
  then show "syncTaskFiles svc jobId task mondayBoardId options w = (Inr (), w)"
    by (simp add: syncTaskFiles_def)
next
  assume "\<not> valid (validateFile attachment None None)"
  then show "transferAttachment svc jobId task attachment mondayItem existingAssets options w
      = (Inr (), w)"
    by (simp add: transferAttachment_def)
next
  assume h: "valid (validateFile attachment None None) \<and> skipDuplicates options
        \<and> check_duplicate attachment existingAssets \<noteq> None"
  then show "fst (transferAttachment svc jobId task attachment mondayItem existingAssets options w)
      = Inr ()"
    by (simp add: transferAttachment_def)
  from h show "uploads (snd (transferAttachment svc jobId task attachment mondayItem existingAssets
      options w)) = uploads w"
    by (simp add: transferAttachment_def logFileTransfer_def)
qed

theorem syncFiles_counters_witness:
  "filesSkipped (fst (syncFiles
      \<lparr>getTasksWithAttachments = (\<lambda>l. Inr
         [\<lparr>task_id = ''t1'', task_name = ''Unmatched'', task_url = ''u1'',
           attachments = Some [\<lparr>title = ''a.txt'', att_size = 1, att_url = ''a'', extension = ''txt''\<rparr>,
                               \<lparr>title = ''b.txt'', att_size = 2, att_url = ''b'', extension = ''txt''\<rparr>],
           parent = None, description = '''', list_id = ''l''\<rparr>,
          \<lparr>task_id = ''t2'', task_name = ''design'', task_url = ''u2'',
           attachments = Some [\<lparr>title = ''big.zip'', att_size = 600000000, att_url = ''c'', extension = ''zip''\<rparr>,
                               \<lparr>title = ''logo.png'', att_size = 100, att_url = ''d'', extension = ''png''\<rparr>],
           parent = None, description = '''', list_id = ''l''\<rparr>,
          \<lparr>task_id = ''t3'', task_name = ''Design'', task_url = ''u3'',
           attachments = Some [\<lparr>title = ''new.txt'', att_size = 5, att_url = ''e'', extension = ''txt''\<rparr>],
           parent = None, description = '''', list_id = ''l''\<rparr>]),
       getItems = (\<lambda>b. Inr
         [\<lparr>item_id = ''1'', item_name = ''Design'', item_board_id = Some ''b'',
           assets = Some [\<lparr>asset_name = ''Logo.PNG'', file_size = 100\<rparr>]\<rparr>]),
       downloadAttachment = (\<lambda>u. Inl \<lparr>message = Some ''ETIMEDOUT'', code = None\<rparr>),
       getBoard = (\<lambda>b. Inr \<lparr>board_id = ''b'', board_name = ''B'', columns = None\<rparr>),
       createColumn = (\<lambda>b t k. Inr \<lparr>column_id = ''new'', column_title = t, column_type = k\<rparr>),
       addFileToColumn = (\<lambda>i c f n. Inr ())\<rparr>
      ''job'' ''l'' ''b'' \<lparr>skipDuplicates = True, clickupLinkField = None\<rparr>
      \<lparr>file_transfers = [], task_mappings = [], job_progress = [], uploads = []\<rparr>)) = 0
   \<and> filesTransferred (fst (syncFiles
      \<lparr>getTasksWithAttachments = (\<lambda>l. Inr
         [\<lparr>task_id = ''t1'', task_name = ''Unmatched'', task_url = ''u1'',
           attachments = Some [\<lparr>title = ''a.txt'', att_size = 1, att_url = ''a'', extension = ''txt''\<rparr>,
                               \<lparr>title = ''b.txt'', att_size = 2, att_url = ''b'', extension = ''txt''\<rparr>],
           parent = None, description = '''', list_id = ''l''\<rparr>,
          \<lparr>task_id = ''t2'', task_name = ''design'', task_url = ''u2'',
           attachments = Some [\<lparr>title = ''big.zip'', att_size = 600000000, att_url = ''c'', extension = ''zip''\<rparr>,
                               \<lparr>title = ''logo.png'', att_size = 100, att_url = ''d'', extension = ''png''\<rparr>],
           parent = None, description = '''', list_id = ''l''\<rparr>,
          \<lparr>task_id = ''t3'', task_name = ''Design'', task_url = ''u3'',
           attachments = Some [\<lparr>title = ''new.txt'', att_size = 5, att_url = ''e'', extension = ''txt''\<rparr>],
           parent = None, description = '''', list_id = ''l''\<rparr>]),
       getItems = (\<lambda>b. Inr
         [\<lparr>item_id = ''1'', item_name = ''Design'', item_board_id = Some ''b'',
           assets = Some [\<lparr>asset_name = ''Logo.PNG'', file_size = 100\<rparr>]\<rparr>]),
       downloadAttachment = (\<lambda>u. Inl \<lparr>message = Some ''ETIMEDOUT'', code = None\<rparr>),
       getBoard = (\<lambda>b. Inr \<lparr>board_id = ''b'', board_name = ''B'', columns = None\<rparr>),
       createColumn = (\<lambda>b t k. Inr \<lparr>column_id = ''new'', column_title = t, column_type = k\<rparr>),
       addFileToColumn = (\<lambda>i c f n. Inr ())\<rparr>
      ''job'' ''l'' ''b'' \<lparr>skipDuplicates = True, clickupLinkField = None\<rparr>
      \<lparr>file_transfers = [], task_mappings = [], job_progress = [], uploads = []\<rparr>)) = 4"
proof -
  let ?a1 = "\<lparr>title = ''big.zip'', att_size = 600000000, att_url = ''c'', extension = ''zip''\<rparr>"
  let ?a2 = "\<lparr>title = ''logo.png'', att_size = 100, att_url = ''d'', extension = ''png''\<rparr>"
  let ?t1 = "\<lparr>task_id = ''t1'', task_name = ''Unmatched'', task_url = ''u1'',
           attachments = Some [\<lparr>title = ''a.txt'', att_size = 1, att_url = ''a'', extension = ''txt''\<rparr>,
                               \<lparr>title = ''b.txt'', att_size = 2, att_url = ''b'', extension = ''txt''\<rparr>],
           parent = None, description = '''', list_id = ''l''\<rparr>"
  let ?t2 = "\<lparr>task_id = ''t2'', task_name = ''design'', task_url = ''u2'',
           attachments = Some [?a1, ?a2],
           parent = None, description = '''', list_id = ''l''\<rparr>"
  let ?t3 = "\<lparr>task_id = ''t3'', task_name = ''Design'', task_url = ''u3'',
           attachments = Some [\<lparr>title = ''new.txt'', att_size = 5, att_url = ''e'', extension = ''txt''\<rparr>],
           parent = None, description = '''', list_id = ''l''\<rparr>"
  let ?item = "\<lparr>item_id = ''1'', item_name = ''Design'', item_board_id = Some ''b'',
           assets = Some [\<lparr>asset_name = ''Logo.PNG'', file_size = 100\<rparr>]\<rparr>"
  let ?svc = "\<lparr>getTasksWithAttachments = (\<lambda>l. Inr [?t1, ?t2, ?t3]),
       getItems = (\<lambda>b. Inr [?item]),
       downloadAttachment = (\<lambda>u. Inl \<lparr>message = Some ''ETIMEDOUT'', code = None\<rparr>),
       getBoard = (\<lambda>b. Inr \<lparr>board_id = ''b'', board_name = ''B'', columns = None\<rparr>),
       createColumn = (\<lambda>b t k. Inr \<lparr>column_id = ''new'', column_title = t, column_type = k\<rparr>),
       addFileToColumn = (\<lambda>i c f n. Inr ())\<rparr>"
  let ?o = "\<lparr>skipDuplicates = True, clickupLinkField = None\<rparr>"
  let ?w = "\<lparr>file_transfers = [], task_mappings = [], job_progress = [], uploads = []\<rparr>"
  let ?assets = "[\<lparr>asset_name = ''Logo.PNG'', file_size = 100\<rparr>]"
  have h3: "searchItemsByName ?svc ''b'' (task_name ?t1) = Inr []" by code_simp
  have h4: "\<not> valid (validateFile ?a1 None None)" by code_simp
  have h5: "valid (validateFile ?a2 None None) \<and> skipDuplicates ?o
        \<and> check_duplicate ?a2 ?assets \<noteq> None" by code_simp
  note t = syncFiles_counters [where svc = ?svc and jobId = "''job''" and clickupListId = "''l''"
      and mondayBoardId = "''b''" and options = ?o and w = ?w and task = ?t1
      and mondayItem = ?item and existingAssets = ?assets]
  have s: "(case getTasksWithAttachments ?svc ''l'' of
            Inl e \<Rightarrow> 0
          | Inr tasks \<Rightarrow>
              sum_list (map (\<lambda>task. if fst (syncTaskFiles ?svc ''job'' task ''b'' ?o ?w) = Inr ()
                                     then attachment_count task else 0) tasks)) = 4"
    by code_simp
  have c1: "syncTaskFiles ?svc ''job'' ?t1 ''b'' ?o ?w = (Inr (), ?w)"
    using t [where attachment = ?a1, THEN conjunct2, THEN conjunct2, THEN conjunct1, rule_format, OF h3] .
  have c2: "transferAttachment ?svc ''job'' ?t1 ?a1 ?item ?assets ?o ?w = (Inr (), ?w)"
    using t [where attachment = ?a1, THEN conjunct2, THEN conjunct2, THEN conjunct2, THEN conjunct1,
        rule_format, OF h4] .
  have c3: "fst (transferAttachment ?svc ''job'' ?t1 ?a2 ?item ?assets ?o ?w) = Inr ()"
    using t [where attachment = ?a2, THEN conjunct2, THEN conjunct2, THEN conjunct2, THEN conjunct2,
        rule_format, OF h5] by simp
  from t [where attachment = ?a1, THEN conjunct1]
       t [where attachment = ?a1, THEN conjunct2, THEN conjunct1] s c1 c2 c3
  show ?thesis by (simp only:)
qed

text \<open>
  C4 asks for one persisted row per attachment that is rejected by validation
  or fails. For a task with an oversized attachment and an attachment whose
  download fails, matched to an item: \<open>syncFiles\<close> ends with no row in
  \<open>file_transfers\<close>; the failure is in the returned result only.
\<close>

theorem syncFiles_unrecorded_outcomes:
  "syncFiles
      \<lparr>getTasksWithAttachments = (\<lambda>l. Inr
         [\<lparr>task_id = ''t'', task_name = ''Design'', task_url = ''u'',
           attachments = Some [\<lparr>title = ''big.zip'', att_size = 600000000, att_url = ''c'', extension = ''zip''\<rparr>,
                               \<lparr>title = ''new.txt'', att_size = 5, att_url = ''e'', extension = ''txt''\<rparr>],
           parent = None, description = '''', list_id = ''l''\<rparr>]),
       getItems = (\<lambda>b. Inr
         [\<lparr>item_id = ''1'', item_name = ''Design'', item_board_id = Some ''b'', assets = None\<rparr>]),
       downloadAttachment = (\<lambda>u. Inl \<lparr>message = Some ''ETIMEDOUT'', code = None\<rparr>),
       getBoard = (\<lambda>b. Inr \<lparr>board_id = ''b'', board_name = ''B'', columns = None\<rparr>),
       createColumn = (\<lambda>b t k. Inr \<lparr>column_id = ''new'', column_title = t, column_type = k\<rparr>),
       addFileToColumn = (\<lambda>i c f n. Inr ())\<rparr>
      ''job'' ''l'' ''b'' \<lparr>skipDuplicates = True, clickupLinkField = None\<rparr>
      \<lparr>file_transfers = [], task_mappings = [], job_progress = [], uploads = []\<rparr>
   = (\<lparr>sync_success = False, filesTransferred = 0, filesSkipped = 0,
       errors = [\<lparr>se_taskId = ''t'', se_taskName = ''Design'', se_error = Some ''ETIMEDOUT'',
                  se_retryCount = 0\<rparr>]\<rparr>,
      \<lparr>file_transfers = [], task_mappings = [], job_progress = [(1, 0)], uploads = []\<rparr>)"
  by code_simp

section \<open>Task mappings of the list replication (ListReplicator)\<close>

subsection \<open>The services and the table\<close>

record ClickUpComment =
  comment_text :: string
  comment_parts :: "string list option"

record ReplicationOptions =
  includeAttachments :: bool
  includeComments :: bool
  includeSubtasks :: bool

text \<open>
  The calls the replication makes beyond those of the file sync. \<open>transformFields\<close>
  stands for \<^verbatim>\<open>FieldMapper.transformStandardFields\<close> and
  \<^verbatim>\<open>transformCustomFieldValues\<close> under the job's field mappings (the column values
  as one string, or the error a rule throws), \<open>describe\<close> for
  \<^verbatim>\<open>mapDescriptionToUpdate\<close>.
\<close>

record replication_services = services +
  getTask :: "string \<Rightarrow> js_error + ClickUpTask"
  getListTasks :: "string \<Rightarrow> js_error + ClickUpTask list"
  getTaskComments :: "string \<Rightarrow> js_error + ClickUpComment list"
  createItem :: "string \<Rightarrow> string \<Rightarrow> string \<Rightarrow> js_error + MondayItem"
  createSubitem :: "string \<Rightarrow> string \<Rightarrow> string \<Rightarrow> js_error + MondayItem"
  createUpdate :: "string \<Rightarrow> string \<Rightarrow> js_error + unit"
  transformFields :: "ClickUpTask \<Rightarrow> js_error + string"
  describe :: "string \<Rightarrow> string"

text \<open>
  \<^verbatim>\<open>db.from('task_mappings').insert(row)\<close>. The schema declares
  \<^verbatim>\<open>clickup_task_id TEXT UNIQUE NOT NULL\<close>: a row whose task is already mapped is
  refused. The client reports that in its return value, which the code does
  not read, so nothing is thrown.
\<close>

definition insertTaskMapping :: "task_mapping \<Rightarrow> world \<Rightarrow> world" where
  "insertTaskMapping row w =
     (if list_ex (\<lambda>r. tm_clickup_task_id r = tm_clickup_task_id row) (task_mappings w) then w
      else w\<lparr>task_mappings := task_mappings w @ [row]\<rparr>)"

text \<open>\<^verbatim>\<open>task.parent || null\<close>\<close>

definition or_null :: "string option \<Rightarrow> string option" where
  "or_null s = (case s of None \<Rightarrow> None | Some t \<Rightarrow> if t = [] then None else Some t)"

definition insertFileTransfer :: "file_transfer \<Rightarrow> world \<Rightarrow> world" where
  "insertFileTransfer row w = w\<lparr>file_transfers := file_transfers w @ [row]\<rparr>"

subsection \<open>Attachments of a migrated task\<close>

text \<open>
  The loop of \<^verbatim>\<open>ListReplicator.transferAttachments\<close>: each attachment is
  downloaded and uploaded inside its own \<^verbatim>\<open>try\<close>, and either outcome is
  written as a row.
\<close>

fun replicateAttachments_loop ::
  "'s replication_services_scheme \<Rightarrow> string \<Rightarrow> ClickUpAttachment list \<Rightarrow> MondayItem \<Rightarrow> string
     \<Rightarrow> string \<Rightarrow> world \<Rightarrow> world" where
  "replicateAttachments_loop svc replicationId [] item fileColumnId clickupTaskId w = w"
| "replicateAttachments_loop svc replicationId (attachment # rest) item fileColumnId clickupTaskId w =
     replicateAttachments_loop svc replicationId rest item fileColumnId clickupTaskId
       (case (case downloadAttachment svc (att_url attachment) of
                Inl e \<Rightarrow> Inl e
              | Inr fileBuffer \<Rightarrow>
                  addFileToColumn svc (item_id item) fileColumnId fileBuffer (title attachment)) of
          Inr u \<Rightarrow>
            insertFileTransfer
              \<lparr>ft_job_id = replicationId, ft_clickup_task_id = clickupTaskId,
               ft_monday_item_id = item_id item, ft_file_name = title attachment,
               ft_file_size = att_size attachment, ft_status = Transferred,
               ft_error_message = None\<rparr>
              (w\<lparr>uploads := uploads w @ [(item_id item, title attachment)]\<rparr>)
        | Inl e \<Rightarrow>
            insertFileTransfer
              \<lparr>ft_job_id = replicationId, ft_clickup_task_id = clickupTaskId,
               ft_monday_item_id = item_id item, ft_file_name = title attachment,
               ft_file_size = att_size attachment, ft_status = Failed,
               ft_error_message = message e\<rparr> w)"

definition replicateAttachments ::
  "'s replication_services_scheme \<Rightarrow> string \<Rightarrow> ClickUpAttachment list \<Rightarrow> MondayItem \<Rightarrow> string
     \<Rightarrow> world \<Rightarrow> (js_error + unit) \<times> world" where
  "replicateAttachments svc replicationId atts item clickupTaskId w =
     (case item_board_id item of
        None \<Rightarrow> (Inl no_board_error, w)
      | Some boardId \<Rightarrow>
          (case ensureFileColumn (services.truncate svc) boardId of
             Inl e \<Rightarrow> (Inl e, w)
           | Inr fileColumnId \<Rightarrow>
               (Inr (), replicateAttachments_loop svc replicationId atts item fileColumnId
                          clickupTaskId w)))"

subsection \<open>Migrating a subtask and a task\<close>

definition migrateSubtask ::
  "'s replication_services_scheme \<Rightarrow> string \<Rightarrow> ClickUpTask \<Rightarrow> string \<Rightarrow> world
     \<Rightarrow> (js_error + unit) \<times> world" where
  "migrateSubtask svc replicationId subtask parentItemId w =
     (case transformFields svc subtask of
        Inl e \<Rightarrow> (Inl e, w)
      | Inr allColumnValues \<Rightarrow>
          (case createSubitem svc parentItemId (task_name subtask) allColumnValues of
             Inl e \<Rightarrow> (Inl e, w)
           | Inr subitem \<Rightarrow>
               (Inr (),
                insertTaskMapping
                  \<lparr>tm_replication_id = replicationId, tm_clickup_task_id = task_id subtask,
                   tm_monday_item_id = item_id subitem, tm_clickup_parent_id = parent subtask,
                   tm_monday_parent_id = Some parentItemId, tm_sync_status = ''synced''\<rparr> w)))"

fun migrateSubtasks_loop ::
  "'s replication_services_scheme \<Rightarrow> string \<Rightarrow> ClickUpTask list \<Rightarrow> string \<Rightarrow> world
     \<Rightarrow> (js_error + unit) \<times> world" where
  "migrateSubtasks_loop svc replicationId [] parentItemId w = (Inr (), w)"
| "migrateSubtasks_loop svc replicationId (subtask # rest) parentItemId w =
     (case migrateSubtask svc replicationId subtask parentItemId w of
        (Inl e, w') \<Rightarrow> (Inl e, w')
      | (Inr u, w') \<Rightarrow> migrateSubtasks_loop svc replicationId rest parentItemId w')"

text \<open>
  \<^verbatim>\<open>migrateTask\<close>, step by step as the source has it. Posting the description
  and the comments changes the remote item only (and the comments' errors are
  caught one by one), so of those steps only what they may throw is here.
\<close>

definition migrate_after_mapping ::
  "'s replication_services_scheme \<Rightarrow> string \<Rightarrow> ClickUpTask \<Rightarrow> ClickUpTask \<Rightarrow> MondayItem
     \<Rightarrow> ReplicationOptions \<Rightarrow> world \<Rightarrow> (js_error + MondayItem) \<times> world" where
  "migrate_after_mapping svc replicationId task fullTask item options w =
     (case (if description fullTask \<noteq> [] \<and> includeComments options
               \<and> describe svc (description fullTask) \<noteq> []
            then createUpdate svc (item_id item) (describe svc (description fullTask))
            else Inr ()) of
        Inl e \<Rightarrow> (Inl e, w)
      | Inr u \<Rightarrow>
          (case (if includeAttachments options
                    \<and> 0 < length (case attachments fullTask of None \<Rightarrow> [] | Some atts \<Rightarrow> atts)
                 then replicateAttachments svc replicationId
                        (case attachments fullTask of None \<Rightarrow> [] | Some atts \<Rightarrow> atts)
                        item (task_id fullTask) w
                 else (Inr (), w)) of
             (Inl e, w1) \<Rightarrow> (Inl e, w1)
           | (Inr u1, w1) \<Rightarrow>
               (case (if includeComments options
                      then (case getTaskComments svc (task_id task) of
                              Inl e \<Rightarrow> Inl e | Inr comments \<Rightarrow> Inr ())
                      else Inr ()) of
                  Inl e \<Rightarrow> (Inl e, w1)
                | Inr u2 \<Rightarrow>
                    (if includeSubtasks options \<and> parent fullTask = None
                     then (case getListTasks svc (list_id fullTask) of
                             Inl e \<Rightarrow> (Inl e, w1)
                           | Inr allTasks \<Rightarrow>
                               (case migrateSubtasks_loop svc replicationId
                                       (filter (\<lambda>t. parent t = Some (task_id fullTask)) allTasks)
                                       (item_id item) w1 of
                                  (Inl e, w2) \<Rightarrow> (Inl e, w2)
                                | (Inr u3, w2) \<Rightarrow> (Inr item, w2)))
                     else (Inr item, w1)))))"

definition migrateTask ::
  "'s replication_services_scheme \<Rightarrow> string \<Rightarrow> ClickUpTask \<Rightarrow> string \<Rightarrow> ReplicationOptions \<Rightarrow> world
     \<Rightarrow> (js_error + MondayItem) \<times> world" where
  "migrateTask svc replicationId task boardId options w =
     (case (if includeAttachments options \<or> includeComments options
            then getTask svc (task_id task) else Inr task) of
        Inl e \<Rightarrow> (Inl e, w)
      | Inr fullTask \<Rightarrow>
          (case transformFields svc fullTask of
             Inl e \<Rightarrow> (Inl e, w)
           | Inr allColumnValues \<Rightarrow>
               (case createItem svc boardId (task_name fullTask) allColumnValues of
                  Inl e \<Rightarrow> (Inl e, w)
                | Inr item \<Rightarrow>
                    migrate_after_mapping svc replicationId task fullTask item options
                      (insertTaskMapping
                         \<lparr>tm_replication_id = replicationId, tm_clickup_task_id = task_id task,
                          tm_monday_item_id = item_id item,
                          tm_clickup_parent_id = or_null (parent task),
                          tm_monday_parent_id = None, tm_sync_status = ''synced''\<rparr> w))))"

subsection \<open>Replays\<close>




subsection \<open>A table with one mapping, for the replay of a mapped task\<close>





subsection \<open>Existing rows stay as they are\<close>



lemma replicateAttachments_loop_mappings:
  "task_mappings (replicateAttachments_loop svc rid atts item col tid w) = task_mappings w"
  by (induction atts arbitrary: w) (simp_all add: insertFileTransfer_def split: sum.splits)

lemma replicateAttachments_mappings:
  "task_mappings (snd (replicateAttachments svc rid atts item tid w)) = task_mappings w"
  by (simp add: replicateAttachments_def replicateAttachments_loop_mappings
        split: option.splits sum.splits)







lemma migrate_after_mapping_no_subtasks:
  assumes "\<not> includeSubtasks options"
  shows "task_mappings (snd (migrate_after_mapping svc rid task fullTask item options w))
           = task_mappings w"
proof -
  define a where "a = (if includeAttachments options
                    \<and> 0 < length (case attachments fullTask of None \<Rightarrow> [] | Some atts \<Rightarrow> atts)
                 then replicateAttachments svc rid
                        (case attachments fullTask of None \<Rightarrow> [] | Some atts \<Rightarrow> atts)
                        item (task_id fullTask) w
                 else (Inr (), w))"
  have aw: "task_mappings (snd a) = task_mappings w"
    unfolding a_def by (simp add: replicateAttachments_mappings)
  obtain ra w1 where a: "a = (ra, w1)" by (cases a)
  with aw have w1: "task_mappings w1 = task_mappings w" by simp
  from a have a': "(if includeAttachments options
                    \<and> 0 < length (case attachments fullTask of None \<Rightarrow> [] | Some atts \<Rightarrow> atts)
                 then replicateAttachments svc rid
                        (case attachments fullTask of None \<Rightarrow> [] | Some atts \<Rightarrow> atts)
                        item (task_id fullTask) w
                 else (Inr (), w)) = (ra, w1)"
    by (simp only: a_def)
  show ?thesis
    unfolding migrate_after_mapping_def a' using assms w1
    by (simp split: sum.splits)
qed



lemma migrateTask_mapped_table_unchanged:
  assumes full: "(if includeAttachments options \<or> includeComments options
                  then getTask svc (task_id task) else Inr task) = Inr fullTask"
    and cols: "transformFields svc fullTask = Inr allColumnValues"
    and created: "createItem svc boardId (task_name fullTask) allColumnValues = Inr item"
    and mapped: "list_ex (\<lambda>r. tm_clickup_task_id r = task_id task) (task_mappings w)"
    and plain: "\<not> includeSubtasks options"
  shows "task_mappings (snd (migrateTask svc rid task boardId options w)) = task_mappings w"
proof -
  let ?row = "\<lparr>tm_replication_id = rid, tm_clickup_task_id = task_id task,
                     tm_monday_item_id = item_id item,
                     tm_clickup_parent_id = or_null (parent task),
                     tm_monday_parent_id = None, tm_sync_status = ''synced''\<rparr>"
  from mapped have ins: "insertTaskMapping ?row w = w"
    by (simp add: insertTaskMapping_def)
  have m: "migrateTask svc rid task boardId options w
      = migrate_after_mapping svc rid task fullTask item options (insertTaskMapping ?row w)"
    unfolding migrateTask_def full by (simp add: cols created)
  show ?thesis unfolding m ins by (rule migrate_after_mapping_no_subtasks [OF plain])
qed

subsection \<open>A replay of a mapped task\<close>





end
